theory Spec2Isabelle
  imports Complex_Main "HOL-Library.Multiset" "HOL-Library.AList"
begin

section \<open>Values of a numeric cell\<close>

text \<open>
  A float64 is a finite number, one of the two infinities, or nan. The arithmetic is that
  of IEEE 754 as numpy applies it to arrays: the exact result of an operation on finite
  numbers is rounded to the nearest float64, ties to even, and to an infinity when it is
  out of range; \<open>x / 0\<close> is an infinity for \<open>x \<noteq> 0\<close> and nan for \<open>x = 0\<close>, and
  \<open>inf - inf\<close> is nan. The sign of zero is not modelled.
\<close>

datatype val = NInf | Fin real | PInf | NaN

text \<open>Rounding to the nearest integer, ties to even.\<close>

definition rhe :: "real \<Rightarrow> int" where
  "rhe x = (let f = \<lfloor>x\<rfloor>; d = x - of_int f
            in if d < 1 / 2 then f else if 1 / 2 < d then f + 1
               else if even f then f else f + 1)"

text \<open>
  The binary exponent of a number, not below that of the smallest normal float64; the
  spacing of the float64 numbers around \<open>x\<close> is \<open>2 powi (expo x - 52)\<close>.
\<close>

definition expo :: "real \<Rightarrow> int" where
  "expo x = max \<lfloor>log 2 \<bar>x\<bar>\<rfloor> (- 1022)"

definition round64 :: "real \<Rightarrow> val" where
  "round64 x =
     (if x = 0 then Fin 0
      else let u = 2 powi (expo x - 52); r = of_int (rhe (x / u)) * u
           in if 2 ^ 1024 \<le> \<bar>r\<bar> then (if 0 < x then PInf else NInf) else Fin r)"

text \<open>A value that is a float64: rounding leaves it as it is.\<close>

definition float64 :: "val \<Rightarrow> bool" where
  "float64 v = (case v of Fin x \<Rightarrow> round64 x = Fin x | _ \<Rightarrow> True)"

fun inf_sign :: "real \<Rightarrow> val" where
  "inf_sign s = (if 0 < s then PInf else if s < 0 then NInf else NaN)"

fun vneg :: "val \<Rightarrow> val" where
  "vneg NaN = NaN"
| "vneg PInf = NInf"
| "vneg NInf = PInf"
| "vneg (Fin a) = Fin (- a)"

fun vadd :: "val \<Rightarrow> val \<Rightarrow> val" where
  "vadd NaN _ = NaN"
| "vadd _ NaN = NaN"
| "vadd (Fin a) (Fin b) = round64 (a + b)"
| "vadd PInf NInf = NaN"
| "vadd NInf PInf = NaN"
| "vadd PInf _ = PInf"
| "vadd _ PInf = PInf"
| "vadd NInf _ = NInf"
| "vadd _ NInf = NInf"

definition vsub :: "val \<Rightarrow> val \<Rightarrow> val" where
  "vsub a b = vadd a (vneg b)"

fun vmul :: "val \<Rightarrow> val \<Rightarrow> val" where
  "vmul NaN _ = NaN"
| "vmul _ NaN = NaN"
| "vmul (Fin a) (Fin b) = round64 (a * b)"
| "vmul (Fin a) PInf = inf_sign a"
| "vmul (Fin a) NInf = inf_sign (- a)"
| "vmul PInf (Fin b) = inf_sign b"
| "vmul NInf (Fin b) = inf_sign (- b)"
| "vmul PInf PInf = PInf"
| "vmul PInf NInf = NInf"
| "vmul NInf PInf = NInf"
| "vmul NInf NInf = PInf"

fun vdiv :: "val \<Rightarrow> val \<Rightarrow> val" where
  "vdiv NaN _ = NaN"
| "vdiv _ NaN = NaN"
| "vdiv (Fin a) (Fin b) = (if b = 0 then inf_sign a else round64 (a / b))"
| "vdiv (Fin a) PInf = Fin 0"
| "vdiv (Fin a) NInf = Fin 0"
| "vdiv PInf (Fin b) = (if b < 0 then NInf else PInf)"
| "vdiv NInf (Fin b) = (if b < 0 then PInf else NInf)"
| "vdiv PInf PInf = NaN"
| "vdiv PInf NInf = NaN"
| "vdiv NInf PInf = NaN"
| "vdiv NInf NInf = NaN"

text \<open>
  An int64 is an integer kept in the range by wrap-around; it is converted to a float64
  by rounding.
\<close>

definition wrap64 :: "int \<Rightarrow> int" where
  "wrap64 i = (i + 2 ^ 63) mod 2 ^ 64 - 2 ^ 63"

definition float_of_int :: "int \<Rightarrow> val" where
  "float_of_int i = round64 (of_int i)"

text \<open>The comparisons \<open>==\<close> and \<open><\<close> of floats: every comparison with nan is false.\<close>

fun veq :: "val \<Rightarrow> val \<Rightarrow> bool" where
  "veq NaN _ = False"
| "veq _ NaN = False"
| "veq a b = (a = b)"

fun vlt :: "val \<Rightarrow> val \<Rightarrow> bool" where
  "vlt NaN _ = False"
| "vlt _ NaN = False"
| "vlt (Fin a) (Fin b) = (a < b)"
| "vlt NInf NInf = False"
| "vlt NInf _ = True"
| "vlt _ NInf = False"
| "vlt PInf _ = False"
| "vlt _ PInf = True"

text \<open>
  The total order in which numpy sorts floats: \<open>-inf\<close>, the finite numbers, \<open>+inf\<close>, and
  nan last. It is the order of \<open>sort\<close> below; the comparison operators of the program
  are \<open>veq\<close> and \<open>vlt\<close>.
\<close>

fun rank :: "val \<Rightarrow> nat" where
  "rank NInf = 0"
| "rank (Fin _) = 1"
| "rank PInf = 2"
| "rank NaN = 3"

instantiation val :: linorder
begin

definition less_eq_val :: "val \<Rightarrow> val \<Rightarrow> bool" where
  "less_eq_val a b = (case (a, b) of (Fin x, Fin y) \<Rightarrow> x \<le> y | _ \<Rightarrow> rank a \<le> rank b)"

definition less_val :: "val \<Rightarrow> val \<Rightarrow> bool" where
  "less_val a b = (a \<le> b \<and> \<not> b \<le> (a::val))"

instance
proof
  fix x y z :: val
  show "(x < y) = (x \<le> y \<and> \<not> y \<le> x)"
    by (simp add: less_val_def)
  show "x \<le> x"
    by (cases x) (simp_all add: less_eq_val_def)
  show "x \<le> y \<Longrightarrow> y \<le> z \<Longrightarrow> x \<le> z"
    by (cases x; cases y; cases z) (simp_all add: less_eq_val_def)
  show "x \<le> y \<Longrightarrow> y \<le> x \<Longrightarrow> x = y"
    by (cases x; cases y) (simp_all add: less_eq_val_def)
  show "x \<le> y \<or> y \<le> x"
    by (cases x; cases y) (auto simp add: less_eq_val_def)
qed

end

text \<open>
  Sum of a column, and the mean as pandas computes it: missing values are skipped, and the
  sum of the others is divided by their number. The entries are added from left to right
  (the order in which the library adds them is its own; it matters to the rounding only).
\<close>

definition vsum :: "val list \<Rightarrow> val" where
  "vsum vs = foldl vadd (Fin 0) vs"

definition pd_mean :: "val list \<Rightarrow> val" where
  "pd_mean vs =
     (let ws = filter (\<lambda>v. v \<noteq> NaN) vs
      in if ws = [] then NaN else vdiv (vsum ws) (Fin (real (length ws))))"

section \<open>Reference builder: decoy and target flags\<close>

text \<open>
  \<^verbatim>\<open>
  def convert_decoy(float_):
      if float_ == 1:
          return True
      else:
          return False
  \<close>
  It is applied to the per-precursor mean of the boolean columns \<open>decoy\<close> and \<open>target\<close>
  (\<open>groupby('precursor').mean()\<close>), where True counts as 1 and False as 0.
\<close>

definition convert_decoy :: "val \<Rightarrow> bool" where
  "convert_decoy x = (if veq x (Fin 1) then True else False)"

definition flag01 :: "bool \<Rightarrow> val" where
  "flag01 b = Fin (if b then 1 else 0)"

definition mean_flag :: "bool list \<Rightarrow> val" where
  "mean_flag bs = pd_mean (map flag01 bs)"

section \<open>Tables\<close>

text \<open>
  A pandas DataFrame: the row labels and the columns in their order, every column as long
  as the index. A Series or a dict is an association list in insertion order.
\<close>

datatype error = KeyError | NotImplementedError string | ValueError | IndexError | LinAlgError

record ('k, 'c) dataframe =
  index :: "'k list"
  columns :: "(string \<times> 'c list) list"

definition rectangular :: "('k, 'c) dataframe \<Rightarrow> bool" where
  "rectangular table \<longleftrightarrow>
     list_all (\<lambda>(c, vs). length vs = length (index table)) (columns table)"

text \<open>
  The tables the distance estimator compares come from \<open>groupby('precursor').mean()\<close>:
  their row labels are unique, as are the names of their columns.
\<close>

definition wf_table :: "('k, 'c) dataframe \<Rightarrow> bool" where
  "wf_table table \<longleftrightarrow>
     distinct (index table) \<and> distinct (map fst (columns table)) \<and> rectangular table"

definition has_column :: "('k, 'c) dataframe \<Rightarrow> string \<Rightarrow> bool" where
  "has_column table col \<longleftrightarrow> col \<in> set (map fst (columns table))"

text \<open>\<open>table[col]\<close> raises KeyError when the column is absent.\<close>

definition getcol :: "('k, 'c) dataframe \<Rightarrow> string \<Rightarrow> error + 'c list" where
  "getcol table col =
     (case map_of (columns table) col of None \<Rightarrow> Inl KeyError | Some vs \<Rightarrow> Inr vs)"

text \<open>\<open>table[col] = vs\<close> overwrites the column in place, or appends a new one.\<close>

definition setcol :: "('k, 'c) dataframe \<Rightarrow> string \<Rightarrow> 'c list \<Rightarrow> ('k, 'c) dataframe" where
  "setcol table col vs = table\<lparr>columns := AList.update col vs (columns table)\<rparr>"

text \<open>
  \<open>table.loc[ks]\<close> on a unique index: the rows labelled \<open>ks\<close>, in the order of \<open>ks\<close>;
  KeyError when a label is absent.
\<close>

definition loc :: "('k, 'c) dataframe \<Rightarrow> 'k list \<Rightarrow> error + ('k, 'c) dataframe" where
  "loc table ks =
     (if set ks \<subseteq> set (index table)
      then Inr \<lparr>index = ks,
                columns = map (\<lambda>(c, vs). (c, map (\<lambda>k. the (map_of (zip (index table) vs) k)) ks))
                              (columns table)\<rparr>
      else Inl KeyError)"

section \<open>Distance estimator\<close>

text \<open>
  A cell of a numeric column is a float64 or an int64; the cells of a column are of one
  kind. On two int64 arrays \<open>+\<close> and \<open>-\<close> are int64 operations and wrap around; when
  one of the arrays is float64 the other is converted; \<open>/\<close> is a float64 division.
\<close>

datatype num = F64 val | I64 int

fun to_val :: "num \<Rightarrow> val" where
  "to_val (F64 v) = v"
| "to_val (I64 i) = float_of_int i"

fun is_int :: "num \<Rightarrow> bool" where
  "is_int (I64 _) = True"
| "is_int (F64 _) = False"

fun the_int :: "num \<Rightarrow> int" where
  "the_int (I64 i) = i"
| "the_int (F64 _) = 0"

fun nsub :: "num \<Rightarrow> num \<Rightarrow> num" where
  "nsub (I64 a) (I64 b) = I64 (wrap64 (a - b))"
| "nsub x y = F64 (vsub (to_val x) (to_val y))"

fun nadd :: "num \<Rightarrow> num \<Rightarrow> num" where
  "nadd (I64 a) (I64 b) = I64 (wrap64 (a + b))"
| "nadd x y = F64 (vadd (to_val x) (to_val y))"

definition ndiv :: "num \<Rightarrow> num \<Rightarrow> val" where
  "ndiv x y = vdiv (to_val x) (to_val y)"

text \<open>
  \<open>np.nanmedian\<close> as numba compiles it: the non-nan entries are collected in an array of
  the same type, nan is returned when there is none, otherwise the middle entry in sorted
  order, or the sum of the two middle entries divided by 2; the result is a float64. In
  an int64 array no entry is nan and the sum of the two middle entries is an int64 sum.
\<close>

definition median_float :: "val list \<Rightarrow> val" where
  "median_float a =
     (let temp = sort (filter (\<lambda>v. v \<noteq> NaN) a); n = length temp; half = n div 2
      in if n = 0 then NaN
         else if even n then vdiv (vadd (temp ! (half - 1)) (temp ! half)) (Fin 2)
         else temp ! half)"

definition median_int :: "int list \<Rightarrow> val" where
  "median_int a =
     (let temp = sort a; n = length temp; half = n div 2
      in if n = 0 then NaN
         else if even n
           then vdiv (float_of_int (wrap64 (temp ! (half - 1) + temp ! half))) (Fin 2)
         else float_of_int (temp ! half))"

definition nanmedian :: "num list \<Rightarrow> val" where
  "nanmedian a =
     (if list_all is_int a then median_int (map the_int a) else median_float (map to_val a))"

text \<open>
  \<^verbatim>\<open>
  def _calculate_deltas_abs(values1, values2):
      return np.nanmedian(values1 - values2)

  def _calculate_deltas_rel(values1, values2):
      return np.nanmedian((values1 - values2) / (values1 + values2) * 2)
  \<close>
\<close>

definition calculate_deltas_abs :: "num list \<Rightarrow> num list \<Rightarrow> val" where
  "calculate_deltas_abs values1 values2 = nanmedian (map2 nsub values1 values2)"

definition calculate_deltas_rel :: "num list \<Rightarrow> num list \<Rightarrow> val" where
  "calculate_deltas_rel values1 values2 =
     nanmedian (map2 (\<lambda>v1 v2. F64 (vmul (ndiv (nsub v1 v2) (nadd v1 v2)) (Fin 2)))
                     values1 values2)"

text \<open>
  \<open>list(set(table_1.index).intersection(set(table_2.index)))\<close>: the order of the list is
  the iteration order of a Python set, which the program does not control. The order is
  therefore a parameter of \<open>calculate_distance_on\<close>; \<open>calculate_distance\<close> fixes the
  order of the first table.
\<close>

definition shared_precursors :: "('k, 'c) dataframe \<Rightarrow> ('k, 'c) dataframe \<Rightarrow> 'k list" where
  "shared_precursors table_1 table_2 =
     filter (\<lambda>k. k \<in> set (index table_2)) (remdups (index table_1))"

definition calib_name :: "bool \<Rightarrow> string \<Rightarrow> string" where
  "calib_name calib col = (if calib then col @ ''_calib'' else col)"

text \<open>The loop over \<open>offset_dict\<close>; the list \<open>deltas\<close> is built in the order of the dict.\<close>

fun distance_loop ::
  "('k, num) dataframe \<Rightarrow> ('k, num) dataframe \<Rightarrow> (string \<times> string) list \<Rightarrow> bool \<Rightarrow>
   error + val list" where
  "distance_loop t1 t2 [] calib = Inr []"
| "distance_loop t1 t2 ((col, mode) # rest) calib =
     (if mode = ''absolute'' then
        (case getcol t1 (calib_name calib col) of Inl e \<Rightarrow> Inl e | Inr values1 \<Rightarrow>
        (case getcol t2 (calib_name calib col) of Inl e \<Rightarrow> Inl e | Inr values2 \<Rightarrow>
        (case distance_loop t1 t2 rest calib of Inl e \<Rightarrow> Inl e | Inr deltas \<Rightarrow>
           Inr (calculate_deltas_abs values1 values2 # deltas))))
      else if mode = ''relative'' then
        (case getcol t1 (calib_name calib col) of Inl e \<Rightarrow> Inl e | Inr values1 \<Rightarrow>
        (case getcol t2 (calib_name calib col) of Inl e \<Rightarrow> Inl e | Inr values2 \<Rightarrow>
        (case distance_loop t1 t2 rest calib of Inl e \<Rightarrow> Inl e | Inr deltas \<Rightarrow>
           Inr (calculate_deltas_rel values1 values2 # deltas))))
      else Inl (NotImplementedError mode))"

definition calculate_distance_on ::
  "'k list \<Rightarrow> ('k, num) dataframe \<Rightarrow> ('k, num) dataframe \<Rightarrow> (string \<times> string) list \<Rightarrow> bool \<Rightarrow>
   error + val list \<times> nat" where
  "calculate_distance_on shared table_1 table_2 offset_dict calib =
     (case loc table_1 shared of Inl e \<Rightarrow> Inl e | Inr t1 \<Rightarrow>
     (case loc table_2 shared of Inl e \<Rightarrow> Inl e | Inr t2 \<Rightarrow>
     (case distance_loop t1 t2 offset_dict calib of Inl e \<Rightarrow> Inl e | Inr deltas \<Rightarrow>
        Inr (deltas, length shared))))"

definition calculate_distance ::
  "('k, num) dataframe \<Rightarrow> ('k, num) dataframe \<Rightarrow> (string \<times> string) list \<Rightarrow> bool \<Rightarrow>
   error + val list \<times> nat" where
  "calculate_distance table_1 table_2 offset_dict calib =
     calculate_distance_on (shared_precursors table_1 table_2) table_1 table_2 offset_dict calib"

section \<open>Calibrator\<close>

text \<open>
  \<^verbatim>\<open>
  def calib_table(table, delta, offset_dict):
      for col in offset_dict:
          if (col not in table.columns) and (col+'_apex' in table.columns):
              col_ = col+'_apex'
          else:
              col_ = col
          if offset_dict[col] == 'absolute':
              table[col+'_calib'] =  table[col_]-delta[col]
          elif offset_dict[col] == 'relative':
              table[col+'_calib'] = (1-delta[col_])*table[col]
          else:
              raise NotImplementedError(offset_dict[col])
  \<close>
  The table is changed in place and nothing is returned: the model returns the table as
  the call leaves it, with the exception that ended the call, if any.
\<close>

definition getitem :: "(string \<times> 'a) list \<Rightarrow> string \<Rightarrow> error + 'a" where
  "getitem series key = (case map_of series key of None \<Rightarrow> Inl KeyError | Some v \<Rightarrow> Inr v)"

definition source_column :: "('k, 'c) dataframe \<Rightarrow> string \<Rightarrow> string" where
  "source_column table col =
     (if \<not> has_column table col \<and> has_column table (col @ ''_apex'')
      then col @ ''_apex'' else col)"

fun calib_table ::
  "('k, val) dataframe \<Rightarrow> (string \<times> val) list \<Rightarrow> (string \<times> string) list \<Rightarrow>
   ('k, val) dataframe \<times> error option" where
  "calib_table table delta [] = (table, None)"
| "calib_table table delta ((col, mode) # rest) =
     (if mode = ''absolute'' then
        (case getcol table (source_column table col) of Inl e \<Rightarrow> (table, Some e) | Inr xs \<Rightarrow>
        (case getitem delta col of Inl e \<Rightarrow> (table, Some e) | Inr d \<Rightarrow>
           calib_table (setcol table (col @ ''_calib'') (map (\<lambda>x. vsub x d) xs)) delta rest))
      else if mode = ''relative'' then
        (case getitem delta (source_column table col) of Inl e \<Rightarrow> (table, Some e) | Inr d \<Rightarrow>
        (case getcol table col of Inl e \<Rightarrow> (table, Some e) | Inr xs \<Rightarrow>
           calib_table (setcol table (col @ ''_calib'') (map (\<lambda>x. vmul (vsub (Fin 1) d) x) xs))
             delta rest))
      else (table, Some (NotImplementedError mode)))"

section \<open>Global aligner\<close>

text \<open>
  \<^verbatim>\<open>
  def align(deltas, filenames, weights=None, n_jobs=None):
      matrix = []
      for i in range(len(deltas)):
          start, end = deltas.index[i]
          start_idx = filenames.index(start)
          end_idx = filenames.index(end)
          lines = np.zeros(len(filenames)-1)
          lines[start_idx:end_idx] = 1
          matrix.append(lines)
      # Remove nan values
      not_nan = ~deltas.isnull().any(axis=1)
      matrix = np.array(matrix)
      matrix = matrix[not_nan]
      deltas_ = deltas[not_nan]
      if len(deltas) < matrix.shape[1]:
          logging.info('Low overlap between datasets detected. Alignment may fail.')
      if weights is not None:
          reg = LinearRegression(...).fit(matrix, deltas_.values, sample_weight = weights[not_nan])
          score= reg.score(matrix, deltas_.values)
      else:
          reg = LinearRegression(...).fit(matrix, deltas_.values)
          score= reg.score(matrix, deltas_.values)
      logging.info(f"Regression score is {score}")
      x = reg.predict(np.eye(len(filenames)-1))
      return x
  \<close>
  The regression is scikit-learn's: it is a parameter of the model, a function from the
  design matrix, the observations and the weights to an exception or to the text of the
  score and the prediction at the unit vectors. The result of \<open>align\<close> is the list of
  lines it has logged and the exception or the value it ends with.
\<close>

text \<open>\<open>filenames.index(name)\<close>: the first position of the name, ValueError without one.\<close>

fun index_of :: "'a list \<Rightarrow> 'a \<Rightarrow> error + nat" where
  "index_of [] x = Inl ValueError"
| "index_of (y # ys) x =
     (if y = x then Inr 0
      else (case index_of ys x of Inl e \<Rightarrow> Inl e | Inr i \<Rightarrow> Inr (Suc i)))"

text \<open>A row of zeros of length \<open>n\<close> with the slice \<open>[start_idx:end_idx]\<close> set to 1.\<close>

definition design_row :: "nat \<Rightarrow> nat \<Rightarrow> nat \<Rightarrow> val list" where
  "design_row n start_idx end_idx =
     map (\<lambda>j. if start_idx \<le> j \<and> j < end_idx then Fin 1 else Fin 0) [0..<n]"

fun design_matrix :: "(string \<times> string) list \<Rightarrow> string list \<Rightarrow> error + val list list" where
  "design_matrix [] filenames = Inr []"
| "design_matrix ((start, stop) # rest) filenames =
     (case index_of filenames start of Inl e \<Rightarrow> Inl e | Inr start_idx \<Rightarrow>
     (case index_of filenames stop of Inl e \<Rightarrow> Inl e | Inr end_idx \<Rightarrow>
     (case design_matrix rest filenames of Inl e \<Rightarrow> Inl e | Inr matrix \<Rightarrow>
        Inr (design_row (length filenames - 1) start_idx end_idx # matrix))))"

text \<open>Row \<open>i\<close> of a table, and the rows of a table (\<open>table.values\<close>).\<close>

definition row_values :: "('k, 'c) dataframe \<Rightarrow> nat \<Rightarrow> 'c list" where
  "row_values table i = map (\<lambda>(c, vs). vs ! i) (columns table)"

definition rows :: "('k, 'c) dataframe \<Rightarrow> 'c list list" where
  "rows table = map (row_values table) [0..<length (index table)]"

text \<open>\<open>~deltas.isnull().any(axis=1)\<close>: the rows without a missing value.\<close>

definition not_nan :: "('k, val) dataframe \<Rightarrow> bool list" where
  "not_nan deltas = map (\<lambda>row. \<not> list_ex (\<lambda>v. v = NaN) row) (rows deltas)"

text \<open>Selection by a boolean mask.\<close>

definition select :: "bool list \<Rightarrow> 'a list \<Rightarrow> 'a list" where
  "select flags xs = map snd (filter fst (zip flags xs))"

record regression =
  score_text :: string
  predict_eye :: "val list list"

type_synonym regressor =
  "val list list \<Rightarrow> val list list \<Rightarrow> val list option \<Rightarrow> error + regression"

definition low_overlap :: string where
  "low_overlap = ''Low overlap between datasets detected. Alignment may fail.''"

definition align ::
  "regressor \<Rightarrow> (string \<times> string, val) dataframe \<Rightarrow> string list \<Rightarrow> val list option \<Rightarrow>
   string list \<times> (error + val list list)" where
  "align regress deltas filenames weights =
     (case design_matrix (index deltas) filenames of Inl e \<Rightarrow> ([], Inl e) | Inr matrix0 \<Rightarrow>
        let matrix = select (not_nan deltas) matrix0;
            deltas_values = select (not_nan deltas) (rows deltas)
        in if index deltas = [] then ([], Inl IndexError)
           else
             let logged = (if length (index deltas) < length filenames - 1 then [low_overlap] else [])
             in (case regress matrix deltas_values (map_option (select (not_nan deltas)) weights) of
                   Inl e \<Rightarrow> (logged, Inl e)
                 | Inr reg \<Rightarrow>
                     (logged @ [''Regression score is '' @ score_text reg], Inr (predict_eye reg))))"

text \<open>
  The number of valid comparisons (rows of \<open>deltas\<close> without a missing value) and the
  number of unknowns of the regression.
\<close>

definition valid_comparisons :: "('k, val) dataframe \<Rightarrow> nat" where
  "valid_comparisons deltas = length (filter id (not_nan deltas))"

definition unknowns :: "string list \<Rightarrow> nat" where
  "unknowns filenames = length filenames - 1"

text \<open>
  Three runs of which the third shares no precursor with the other two: two of the three
  pairwise distances are missing.
\<close>

definition sparse_deltas :: "(string \<times> string, val) dataframe" where
  "sparse_deltas =
     \<lparr>index = [(''A'', ''B''), (''A'', ''C''), (''B'', ''C'')],
      columns = [(''mz'', [Fin 1, NaN, NaN]), (''rt'', [Fin 2, NaN, NaN])]\<rparr>"

text \<open>
  In \<open>align_datasets\<close>, the offsets of the runs:
  \<^verbatim>\<open>
  alignment = pd.DataFrame(align(deltas, filenames, weights, n_jobs), columns = cols)
  alignment = pd.concat([alignment, pd.DataFrame(np.zeros((1, alignment.shape[1])), columns= cols)])
  alignment -= alignment.mean()
  \<close>
  \<open>align_files\<close> then gives row \<open>idx\<close> of the table to the file at position \<open>idx\<close>.
\<close>

definition frame_of_rows :: "string list \<Rightarrow> val list list \<Rightarrow> error + (nat, val) dataframe" where
  "frame_of_rows cols x =
     (if list_all (\<lambda>row. length row = length cols) x
      then Inr \<lparr>index = [0..<length x],
                columns = map (\<lambda>(j, c). (c, map (\<lambda>row. row ! j) x)) (enumerate 0 cols)\<rparr>
      else Inl ValueError)"

definition concat_zero_row :: "(nat, val) dataframe \<Rightarrow> (nat, val) dataframe" where
  "concat_zero_row alignment =
     \<lparr>index = index alignment @ [0],
      columns = map (\<lambda>(c, vs). (c, vs @ [Fin 0])) (columns alignment)\<rparr>"

definition subtract_mean :: "('k, val) dataframe \<Rightarrow> ('k, val) dataframe" where
  "subtract_mean alignment =
     alignment\<lparr>columns := map (\<lambda>(c, vs). (c, map (\<lambda>v. vsub v (pd_mean vs)) vs))
                                (columns alignment)\<rparr>"

definition finite_val :: "val \<Rightarrow> bool" where
  "finite_val v = (case v of Fin _ \<Rightarrow> True | _ \<Rightarrow> False)"

definition real_of :: "val \<Rightarrow> real" where
  "real_of v = (case v of Fin r \<Rightarrow> r | _ \<Rightarrow> 0)"

text \<open>
  A column of finite offsets that is centred without rounding: its float64 mean is its
  mean, and the float64 difference of every entry from the mean is the difference.
\<close>

definition exact_centering :: "val list \<Rightarrow> bool" where
  "exact_centering vs \<longleftrightarrow>
     list_all finite_val vs \<and>
     pd_mean vs = Fin (sum_list (map real_of vs) / real (length vs)) \<and>
     list_all (\<lambda>v. vsub v (pd_mean vs) =
                    Fin (real_of v - sum_list (map real_of vs) / real (length vs))) vs"

text \<open>An offset that is finite and at most \<open>a\<close> in magnitude.\<close>

definition bounded_by :: "real \<Rightarrow> val \<Rightarrow> bool" where
  "bounded_by a v = (case v of Fin r \<Rightarrow> \<bar>r\<bar> \<le> a | _ \<Rightarrow> False)"

section \<open>Match probability\<close>

text \<open>
  \<^verbatim>\<open>
  def get_probability(df, ref, sigma, index):
      sigma = sigma.iloc[index].values
      sigma = sigma*np.eye(len(sigma))
      mu = ref.iloc[index].values
      x = df.iloc[index].values
      try:
          m_dist_x = np.dot((x-mu).transpose(), np.linalg.inv(sigma))
          m_dist_x = np.dot(m_dist_x, (x-mu))
          _ = stats.chi2.cdf(m_dist_x, len(mu))
      except Exception as e:
          _ = np.nan
      return _
  \<close>
  \<open>sigma*np.eye(len(sigma))\<close> is the diagonal matrix of the standard deviations.
  \<open>np.linalg.inv\<close> raises LinAlgError on a singular matrix, for a diagonal matrix when
  an entry of the diagonal is zero, and otherwise returns the diagonal matrix of the
  reciprocals. The three rows have the same columns in \<open>match_datasets\<close>; rows of
  different lengths raise inside the \<open>try\<close> block. The chi-squared distribution function
  is scipy's and a parameter of the model.
\<close>

definition iloc :: "('k, 'c) dataframe \<Rightarrow> nat \<Rightarrow> error + 'c list" where
  "iloc table i =
     (if i < length (index table) then Inr (row_values table i) else Inl IndexError)"

definition inv_diag :: "val list \<Rightarrow> error + val list" where
  "inv_diag sigma =
     (if list_ex (\<lambda>s. s = Fin 0) sigma then Inl LinAlgError
      else Inr (map (vdiv (Fin 1)) sigma))"

definition m_dist :: "val list \<Rightarrow> val list \<Rightarrow> val list \<Rightarrow> error + val" where
  "m_dist x mu sigma =
     (if length x \<noteq> length mu \<or> length sigma \<noteq> length mu then Inl ValueError
      else (case inv_diag sigma of Inl e \<Rightarrow> Inl e | Inr sigma_inv \<Rightarrow>
        Inr (vsum (map (\<lambda>(d, s). vmul (vmul d s) d) (zip (map2 vsub x mu) sigma_inv)))))"

definition get_probability ::
  "(val \<Rightarrow> nat \<Rightarrow> val) \<Rightarrow> ('a, val) dataframe \<Rightarrow> ('b, val) dataframe \<Rightarrow>
   ('c, val) dataframe \<Rightarrow> nat \<Rightarrow> error + val" where
  "get_probability chi2_cdf df ref sigma i =
     (case iloc sigma i of Inl e \<Rightarrow> Inl e | Inr sigma_row \<Rightarrow>
     (case iloc ref i of Inl e \<Rightarrow> Inl e | Inr mu \<Rightarrow>
     (case iloc df i of Inl e \<Rightarrow> Inl e | Inr x \<Rightarrow>
        Inr (case m_dist x mu sigma_row of
               Inl e \<Rightarrow> NaN
             | Inr m_dist_x \<Rightarrow> chi2_cdf m_dist_x (length mu)))))"

text \<open>
  The acceptance test of the matcher, \<open>matched[matched['matching_p'] < match_p_min]\<close>:
  a candidate is kept when the comparison is true.
\<close>

definition accepted :: "val \<Rightarrow> val \<Rightarrow> bool" where
  "accepted match_p_min matching_p = vlt matching_p match_p_min"

text \<open>Frames after the example in the source, with a zero standard deviation in one row.\<close>

definition example_df :: "(nat, val) dataframe" where
  "example_df = \<lparr>index = [0, 1, 2],
     columns = [(''mass'', [Fin 100, Fin 200, Fin 300]), (''rt'', [Fin 1, Fin 2, Fin 3])]\<rparr>"

definition example_ref :: "(nat, val) dataframe" where
  "example_ref = \<lparr>index = [0, 1, 2],
     columns = [(''mass'', [Fin 100, Fin 200, Fin 302]), (''rt'', [Fin 1, Fin (5 / 2), Fin 3])]\<rparr>"

definition example_std :: "(nat, val) dataframe" where
  "example_std = \<lparr>index = [0, 1, 2],
     columns = [(''mass'', [Fin (1 / 8), Fin 0, Fin (1 / 8)]), (''rt'', [Fin 1, Fin 1, Fin 1])]\<rparr>"

section \<open>Reference builder and matcher\<close>

text \<open>
  The settings \<open>match_datasets\<close> reads, and a row of the pooled identifications (the
  table assembled from the \<open>peptide_fdr\<close> tables of all runs): the run, the precursor
  key, the calibrated coordinates (\<open>mz_calib\<close>, \<open>rt_calib\<close> and, when present,
  \<open>mobility_calib\<close>), the score and the two flags.
\<close>

record settings =
  file_paths :: "string list"
  shortnames :: "string list"
  matching_group :: "int list"
  match_group_tol :: int

record 'k identification =
  shortname :: string
  precursor :: 'k
  calib_coords :: "val list"
  score :: val
  decoy :: bool
  target :: bool

record 'k reference_row =
  ref_precursor :: 'k
  ref_coords :: "val list"
  ref_score :: val
  ref_decoy :: bool
  ref_target :: bool

text \<open>An empty list of matching groups puts every run into group 0.\<close>

definition groups_of :: "settings \<Rightarrow> int list" where
  "groups_of st =
     (if matching_group st = [] then map (\<lambda>_. 0) (shortnames st) else matching_group st)"

text \<open>Indexing a numpy array by a boolean array: IndexError when the lengths differ.\<close>

definition boolean_index :: "bool list \<Rightarrow> 'a list \<Rightarrow> error + 'a list" where
  "boolean_index flags xs =
     (if length flags = length xs then Inr (select flags xs) else Inl IndexError)"

definition files_from :: "settings \<Rightarrow> int \<Rightarrow> error + string list" where
  "files_from st grp =
     boolean_index
       (map (\<lambda>g. g \<le> grp + match_group_tol st \<and> g \<ge> grp - match_group_tol st) (groups_of st))
       (shortnames st)"

definition files_to :: "settings \<Rightarrow> int \<Rightarrow> error + string list" where
  "files_to st grp = boolean_index (map (\<lambda>g. g = grp) (groups_of st)) (shortnames st)"

text \<open>
  \<^verbatim>\<open>
  if len(files_from) > 2:
      xx = x[x['shortname'].apply(lambda x: x in files_from)].copy()
      grouped = xx[base_col + alignment_cols + extra_cols].groupby('precursor').mean()
      grouped['decoy'] = grouped['decoy'].apply(lambda x: convert_decoy(x))
      grouped['target'] = grouped['target'].apply(lambda x: convert_decoy(x))
      ...
  else:
      logging.info(f'Less than 3 datasets present in matching group {group}. Skipping matching.')
  \<close>
  \<open>groupby\<close> makes one row for every key that occurs, in sorted order. The standard
  deviations that are added to the table are the same rows' and are left out here.
\<close>

definition pooled :: "'k identification list \<Rightarrow> string list \<Rightarrow> 'k identification list" where
  "pooled x files = filter (\<lambda>r. shortname r \<in> set files) x"

text \<open>The pooled rows of a precursor: the group that \<open>groupby\<close> forms for the key.\<close>

definition precursor_group :: "'k identification list \<Rightarrow> string list \<Rightarrow> 'k \<Rightarrow> 'k identification list" where
  "precursor_group x files k = filter (\<lambda>r. precursor r = k) (pooled x files)"

definition column_means :: "val list list \<Rightarrow> val list" where
  "column_means rs = (case rs of [] \<Rightarrow> [] | r # _ \<Rightarrow>
     map (\<lambda>j. pd_mean (map (\<lambda>row. row ! j) rs)) [0..<length r])"

definition grouped :: "('k::linorder) identification list \<Rightarrow> 'k reference_row list" where
  "grouped xx =
     map (\<lambda>k. let g = filter (\<lambda>r. precursor r = k) xx
              in \<lparr>ref_precursor = k,
                  ref_coords = column_means (map calib_coords g),
                  ref_score = pd_mean (map score g),
                  ref_decoy = convert_decoy (mean_flag (map decoy g)),
                  ref_target = convert_decoy (mean_flag (map target g))\<rparr>)
         (sort (remdups (map precursor xx)))"

definition reference ::
  "settings \<Rightarrow> ('k::linorder) identification list \<Rightarrow> int \<Rightarrow> error + 'k reference_row list option" where
  "reference st x grp =
     (if length (file_paths st) > 2 then
        (case files_from st grp of Inl e \<Rightarrow> Inl e | Inr files \<Rightarrow>
           if length files > 2 then Inr (Some (grouped (pooled x files))) else Inr None)
      else Inr None)"

text \<open>The index of the reference table, \<open>grouped.index\<close>, when a reference is built.\<close>

definition reference_index ::
  "settings \<Rightarrow> ('k::linorder) identification list \<Rightarrow> int \<Rightarrow> error + 'k list option" where
  "reference_index st x grp =
     (case reference st x grp of Inl e \<Rightarrow> Inl e
      | Inr r \<Rightarrow> Inr (map_option (map ref_precursor) r))"

text \<open>
  \<open>list(set(grouped.index) - set(df['precursor']))\<close>: the candidates for a transfer to a
  run, the keys of the reference that the run has not identified.
\<close>

definition matching_set :: "'k list \<Rightarrow> 'k list \<Rightarrow> 'k list" where
  "matching_set grouped_index df_precursor = filter (\<lambda>k. k \<notin> set df_precursor) grouped_index"

text \<open>The number of runs among \<open>files\<close> in which a precursor was identified.\<close>

definition runs_observed :: "'k identification list \<Rightarrow> string list \<Rightarrow> 'k \<Rightarrow> nat" where
  "runs_observed x files k =
     length (remdups (map shortname (filter (\<lambda>r. precursor r = k) (pooled x files))))"

text \<open>Three runs in one group; the precursor 2 is identified in the first run only.\<close>

definition three_runs :: settings where
  "three_runs = \<lparr>file_paths = [''a.raw'', ''b.raw'', ''c.raw''], shortnames = [''a'', ''b'', ''c''],
     matching_group = [], match_group_tol = 0\<rparr>"

definition ident :: "string \<Rightarrow> nat \<Rightarrow> nat identification" where
  "ident run k = \<lparr>shortname = run, precursor = k, calib_coords = [Fin 500, Fin 10],
     score = Fin 1, decoy = False, target = True\<rparr>"

definition three_runs_x :: "nat identification list" where
  "three_runs_x = [ident ''a'' 1, ident ''b'' 1, ident ''c'' 1, ident ''a'' 2]"

text \<open>
  The same runs with a decoy among the rows of the precursor 1, and the precursor 2 a decoy.
\<close>

definition mixed_x :: "nat identification list" where
  "mixed_x = [ident ''a'' 1, ident ''b'' 1, (ident ''c'' 1)\<lparr>decoy := True, target := False\<rparr>,
              (ident ''a'' 2)\<lparr>decoy := True, target := False\<rparr>]"

section \<open>Merging the matches into the identifications\<close>

text \<open>
  \<^verbatim>\<open>
  df['type'] = 'msms'
  df['matching_p'] = np.nan
  shared_columns = list(set(matched.columns).intersection(set(df.columns)))
  df_ = pd.concat([df, matched[shared_columns]], ignore_index=True)
  ...
  ms_file.write(df_, dataset_name='peptide_fdr')
  \<close>
  The columns of these tables are of several types. A column is an int64, a float64 or a
  bool array, or an array of objects (strings, and whatever else a column of mixed
  content holds). The order of \<open>shared_columns\<close> is that of a Python set and a parameter
  of the model.
\<close>

datatype cell = CInt int | CFloat val | CBool bool | CStr string

















section \<open>The distance as the specification words it\<close>

text \<open>
  The value of column \<open>col\<close> in the row labelled \<open>k\<close>.
\<close>

definition cell :: "('k, 'c) dataframe \<Rightarrow> string \<Rightarrow> 'k \<Rightarrow> 'c" where
  "cell table col k = the (map_of (zip (index table) (the (map_of (columns table) col))) k)"

text \<open>The two calibration modes.\<close>

definition supported :: "string \<Rightarrow> bool" where
  "supported mode \<longleftrightarrow> mode = ''absolute'' \<or> mode = ''relative''"


definition float64_cells :: "('k, num) dataframe \<Rightarrow> bool" where
  "float64_cells table \<longleftrightarrow> list_all (\<lambda>(c, vs). list_all (\<lambda>v. float64 (to_val v)) vs) (columns table)"




text \<open>
  A cell whose difference with itself is defined. A float64 cell: a finite number, and in
  relative mode a non-zero one (\<open>0 / 0\<close> and \<open>inf - inf\<close> are nan). An int64 cell: any in
  absolute mode, and in relative mode one whose int64 sum with itself is not zero.
\<close>

definition usable :: "string \<Rightarrow> num \<Rightarrow> bool" where
  "usable mode v =
     (case v of
        F64 (Fin x) \<Rightarrow> mode = ''absolute'' \<or> x \<noteq> 0
      | F64 _ \<Rightarrow> False
      | I64 i \<Rightarrow> mode = ''absolute'' \<or> wrap64 (i + i) \<noteq> 0)"

text \<open>The tables of \<open>test_calculate_distance\<close>; their columns are int64.\<close>

definition df_1 :: "(string, num) dataframe" where
  "df_1 = \<lparr>index = [''A'', ''B'', ''C'', ''D'', ''E''],
     columns = [(''mass'', [I64 10, I64 20, I64 30, I64 40, I64 50]),
                (''mobility'', [I64 10, I64 20, I64 30, I64 40, I64 50])]\<rparr>"

definition df_2 :: "(string, num) dataframe" where
  "df_2 = \<lparr>index = [''A'', ''B'', ''C'', ''D'', ''F''],
     columns = [(''mass'', [I64 11, I64 21, I64 31, I64 41, I64 51]),
                (''mobility'', [I64 30, I64 60, I64 90, I64 120, I64 150])]\<rparr>"

definition test_offset_dict :: "(string \<times> string) list" where
  "test_offset_dict = [(''mass'', ''absolute''), (''mobility'', ''relative'')]"

text \<open>The first table as a features table of float64 columns, as \<open>calib_table\<close> reads it.\<close>

definition features_1 :: "(string, val) dataframe" where
  "features_1 = \<lparr>index = [''A'', ''B'', ''C'', ''D'', ''E''],
     columns = [(''mass'', [Fin 10, Fin 20, Fin 30, Fin 40, Fin 50]),
                (''mobility'', [Fin 10, Fin 20, Fin 30, Fin 40, Fin 50])]\<rparr>"





text \<open>
  A features table that stores a dimension under its apex name only, with the offsets of
  a run.
\<close>

definition apex_table :: "(nat, val) dataframe" where
  "apex_table = \<lparr>index = [0, 1], columns = [(''mz_apex'', [Fin 100, Fin 200])]\<rparr>"

definition apex_delta :: "(string \<times> val) list" where
  "apex_delta = [(''mz'', Fin (1 / 2))]"

section \<open>Properties\<close>

subsection \<open>Rounding to float64\<close>

lemma rhe_of_int: "rhe (of_int n) = n"
  by (simp add: rhe_def)

lemma rhe_err: "\<bar>of_int (rhe x) - x\<bar> \<le> 1 / 2"
  unfolding rhe_def Let_def by (auto; linarith)

lemma rhe_small: "\<bar>x\<bar> \<le> 1 / 2 \<Longrightarrow> rhe x = 0"
proof -
  assume a: "\<bar>x\<bar> \<le> 1 / 2"
  consider "x = 1 / 2" | "x = - (1 / 2)" | "- (1 / 2) < x \<and> x < 0" | "0 \<le> x \<and> x < 1 / 2"
    using a by (auto simp: abs_le_iff) linarith
  then show ?thesis
  proof cases
    case 1
    have "\<lfloor>1 / 2 :: real\<rfloor> = 0" by simp
    then show ?thesis unfolding 1 by (simp add: rhe_def)
  next
    case 2
    have "\<lfloor>- (1 / 2) :: real\<rfloor> = - 1" by (simp add: floor_eq_iff)
    then show ?thesis unfolding 2 by (simp add: rhe_def)
  next
    case 3
    then have "\<lfloor>x\<rfloor> = - 1" by (simp add: floor_eq_iff)
    with 3 show ?thesis by (simp add: rhe_def)
  next
    case 4
    then have "\<lfloor>x\<rfloor> = 0" by (simp add: floor_eq_iff)
    with 4 show ?thesis by (simp add: rhe_def)
  qed
qed

lemma rhe_zero: "rhe x = 0 \<Longrightarrow> \<bar>x\<bar> \<le> 1 / 2"
  using rhe_err [of x] by simp

lemma powr_powi: "(2::real) powr real_of_int k = 2 powi k"
  by (simp add: powr_real_of_int')

lemma binade:
  assumes "x \<noteq> 0"
  shows "2 powi \<lfloor>log 2 \<bar>x\<bar>\<rfloor> \<le> \<bar>x\<bar>" and "\<bar>x\<bar> < 2 powi (\<lfloor>log 2 \<bar>x\<bar>\<rfloor> + 1)"
proof -
  have pos: "0 < \<bar>x\<bar>" using assms by simp
  have "(2::real) powr real_of_int \<lfloor>log 2 \<bar>x\<bar>\<rfloor> \<le> \<bar>x\<bar> \<and>
        \<bar>x\<bar> < 2 powr (real_of_int \<lfloor>log 2 \<bar>x\<bar>\<rfloor> + 1)"
    using floor_log_eq_powr_iff [OF pos, of 2 "\<lfloor>log 2 \<bar>x\<bar>\<rfloor>"] by simp
  moreover have "(2::real) powr (real_of_int \<lfloor>log 2 \<bar>x\<bar>\<rfloor> + 1) = 2 powi (\<lfloor>log 2 \<bar>x\<bar>\<rfloor> + 1)"
    using powr_powi [of "\<lfloor>log 2 \<bar>x\<bar>\<rfloor> + 1"] by simp
  ultimately show "2 powi \<lfloor>log 2 \<bar>x\<bar>\<rfloor> \<le> \<bar>x\<bar>" and "\<bar>x\<bar> < 2 powi (\<lfloor>log 2 \<bar>x\<bar>\<rfloor> + 1)"
    by (simp_all add: powr_powi)
qed

lemma binade_eq:
  assumes "2 powi e \<le> \<bar>x\<bar>" and "\<bar>x\<bar> < 2 powi (e + 1)"
  shows "\<lfloor>log 2 \<bar>x\<bar>\<rfloor> = e"
proof -
  have "0 < (2::real) powi e" by simp
  with assms(1) have pos: "0 < \<bar>x\<bar>" by linarith
  have "(2::real) powr (real_of_int e + 1) = 2 powi (e + 1)"
    using powr_powi [of "e + 1"] by simp
  then show ?thesis
    using floor_log_eq_powr_iff [OF pos, of 2 e] assms
    by (simp add: powr_powi)
qed

lemma expo_normal:
  assumes "2 powi e \<le> \<bar>x\<bar>" and "\<bar>x\<bar> < 2 powi (e + 1)" and "- 1022 \<le> e"
  shows "expo x = e"
  using binade_eq [OF assms(1,2)] assms(3) by (simp add: expo_def)

lemma expo_subnormal:
  assumes "x \<noteq> 0" and "\<bar>x\<bar> < 2 powi (- 1022)"
  shows "expo x = - 1022"
proof -
  have "\<lfloor>log 2 \<bar>x\<bar>\<rfloor> < - 1022"
  proof (rule ccontr)
    assume "\<not> \<lfloor>log 2 \<bar>x\<bar>\<rfloor> < - 1022"
    then have "(2::real) powi (- 1022) \<le> 2 powi \<lfloor>log 2 \<bar>x\<bar>\<rfloor>"
      by (intro power_int_increasing) simp_all
    with binade(1) [OF assms(1)] assms(2) show False by linarith
  qed
  then show ?thesis by (simp add: expo_def)
qed

lemma expo_ge: "- 1022 \<le> expo x"
  by (simp add: expo_def)

lemma expo_le:
  assumes "x \<noteq> 0" and "\<bar>x\<bar> < 2 powi n" and "- 1022 < n"
  shows "expo x < n"
proof -
  have "\<lfloor>log 2 \<bar>x\<bar>\<rfloor> < n"
  proof (rule ccontr)
    assume "\<not> \<lfloor>log 2 \<bar>x\<bar>\<rfloor> < n"
    then have "(2::real) powi n \<le> 2 powi \<lfloor>log 2 \<bar>x\<bar>\<rfloor>"
      by (intro power_int_increasing) simp_all
    with binade(1) [OF assms(1)] assms(2) show False by linarith
  qed
  with assms(3) show ?thesis by (simp add: expo_def)
qed

lemma round64_eval:
  assumes "2 powi e \<le> \<bar>x\<bar>" and "\<bar>x\<bar> < 2 powi (e + 1)" and "- 1022 \<le> e"
    and "rhe (x / 2 powi (e - 52)) = m"
    and "\<bar>of_int m * 2 powi (e - 52)\<bar> < (2::real) ^ 1024"
  shows "round64 x = Fin (of_int m * 2 powi (e - 52))"
proof -
  have p: "0 < (2::real) powi e" by simp
  have nz: "x \<noteq> 0"
  proof
    assume "x = 0"
    with assms(1) have "(2::real) powi e \<le> 0" by simp
    with p show False by linarith
  qed
  have e: "expo x = e" using assms(1-3) by (rule expo_normal)
  show ?thesis
    using nz assms(4,5) by (simp add: round64_def e Let_def)
qed

lemma round64_exact:
  assumes "x = of_int m * 2 powi k" and "\<bar>m\<bar> < 2 ^ 53" and "- 1074 \<le> k" and "k \<le> 971"
  shows "round64 x = Fin x"
proof (cases "x = 0")
  case True
  then show ?thesis by (simp add: round64_def)
next
  case False
  have absx: "\<bar>x\<bar> = of_int \<bar>m\<bar> * 2 powi k"
    by (simp add: assms(1) abs_mult)
  have "of_int \<bar>m\<bar> < (2::real) ^ 53"
    using assms(2) by (metis of_int_less_numeral_power_cancel_iff)
  then have "\<bar>x\<bar> < 2 ^ 53 * 2 powi k"
    unfolding absx by (intro mult_strict_right_mono) simp_all
  also have "(2::real) ^ 53 * 2 powi k = 2 powi (k + 53)"
    by (simp add: power_int_add)
  finally have lt: "\<bar>x\<bar> < 2 powi (k + 53)" .
  have le: "expo x - 52 \<le> k"
  proof (cases "- 1022 < k + 53")
    case True
    from expo_le [OF False lt True] show ?thesis by simp
  next
    case False
    then have "k + 53 \<le> - 1022" by simp
    then have "(2::real) powi (k + 53) \<le> 2 powi (- 1022)"
      by (intro power_int_increasing) simp_all
    with lt have "\<bar>x\<bar> < 2 powi (- 1022)" by linarith
    from expo_subnormal [OF \<open>x \<noteq> 0\<close> this] assms(3) show ?thesis by simp
  qed
  define E where "E = expo x"
  define j where "j = nat (k - (E - 52))"
  have k: "k = (E - 52) + int j" using le by (simp add: j_def E_def)
  have pk: "(2::real) powi k = 2 powi (E - 52) * 2 ^ j"
    by (subst k) (simp add: power_int_add)
  have "x / 2 powi (E - 52) = of_int m * 2 ^ j"
    by (simp add: assms(1) pk)
  also have "\<dots> = of_int (m * 2 ^ j)" by simp
  finally have q: "x / 2 powi (E - 52) = of_int (m * 2 ^ j)" .
  have "of_int (rhe (x / 2 powi (E - 52))) * 2 powi (E - 52) = x"
    unfolding q rhe_of_int by (simp add: assms(1) pk)
  then have r: "of_int (rhe (x / 2 powi (expo x - 52))) * 2 powi (expo x - 52) = x"
    by (simp add: E_def)
  have "(2::real) ^ 53 * 2 powi k \<le> 2 ^ 53 * 2 powi 971"
    using assms(4) by (intro mult_left_mono power_int_increasing) simp_all
  also have "\<dots> = (2::real) ^ 1024" by simp
  finally have "\<bar>x\<bar> < 2 ^ 1024"
    using \<open>\<bar>x\<bar> < 2 ^ 53 * 2 powi k\<close> by linarith
  then show ?thesis
    using False r by (simp add: round64_def Let_def)
qed

lemma round64_tiny:
  assumes "\<bar>y\<bar> \<le> 2 powi (- 1075)"
  shows "round64 y = Fin 0"
proof (cases "y = 0")
  case True
  then show ?thesis by (simp add: round64_def)
next
  case False
  have "(2::real) powi (- 1075) < 2 powi (- 1022)"
    by (intro power_int_strict_increasing) simp_all
  with assms have "\<bar>y\<bar> < 2 powi (- 1022)" by linarith
  from expo_subnormal [OF False this] have e: "expo y - 52 = - 1074" by simp
  have "\<bar>y / 2 powi (- 1074)\<bar> = \<bar>y\<bar> * 2 powi 1074"
    by (simp add: abs_divide power_int_minus field_simps)
  also have "\<dots> \<le> 2 powi (- 1075) * 2 powi 1074"
    using assms by (intro mult_right_mono) simp_all
  also have "\<dots> = 1 / 2"
    by (simp flip: power_int_add)
  finally have "rhe (y / 2 powi (- 1074)) = 0" by (rule rhe_small)
  then show ?thesis
    using False by (simp add: round64_def Let_def e)
qed

lemma round64_zero:
  assumes "round64 y = Fin 0"
  shows "\<bar>y\<bar> \<le> 2 powi (- 1075)"
proof (cases "y = 0")
  case True
  then show ?thesis by simp
next
  case False
  let ?u = "(2::real) powi (expo y - 52)"
  have upos: "0 < ?u" by simp
  from assms False have "of_int (rhe (y / ?u)) * ?u = 0"
    by (auto simp: round64_def Let_def split: if_splits)
  then have "rhe (y / ?u) = 0" using upos by simp
  then have "\<bar>y / ?u\<bar> \<le> 1 / 2" by (rule rhe_zero)
  then have half: "\<bar>y\<bar> \<le> ?u / 2"
    using upos by (simp add: abs_divide field_simps)
  have u2: "?u / 2 = 2 powi (expo y - 53)"
    by (simp add: power_int_diff)
  have "expo y = - 1022"
  proof (rule ccontr)
    assume ne: "expo y \<noteq> - 1022"
    then have "expo y = \<lfloor>log 2 \<bar>y\<bar>\<rfloor>" by (auto simp: expo_def max_def split: if_splits)
    with binade(1) [OF False] have "2 powi (expo y) \<le> \<bar>y\<bar>" by simp
    moreover have "(2::real) powi (expo y - 53) < 2 powi (expo y)"
      by (intro power_int_strict_increasing) simp_all
    ultimately show False using half u2 by linarith
  qed
  with half u2 show ?thesis by simp
qed

lemma round64_int: "\<bar>i\<bar> < 2 ^ 53 \<Longrightarrow> round64 (of_int i) = Fin (of_int i)"
  by (rule round64_exact [of _ i 0]) simp_all

lemma round64_nat: "n < 2 ^ 53 \<Longrightarrow> round64 (real n) = Fin (real n)"
  using round64_int [of "int n"] by simp

lemma round64_0: "round64 0 = Fin 0"
  by (simp add: round64_def)

lemma round64_1: "round64 1 = Fin 1"
  using round64_int [of 1] by simp

lemma round64_numeral:
  "(numeral n :: int) < 2 ^ 53 \<Longrightarrow> round64 (numeral n) = Fin (numeral n)"
  using round64_int [of "numeral n"] by simp

lemma round64_neg_numeral:
  "(numeral n :: int) < 2 ^ 53 \<Longrightarrow> round64 (- numeral n) = Fin (- numeral n)"
  using round64_int [of "- numeral n"] by simp

lemma round64_neg_1: "round64 (- 1) = Fin (- 1)"
  using round64_int [of "- 1"] by simp

lemmas round64_simps =
  round64_0 round64_1 round64_neg_1 round64_numeral round64_neg_numeral

lemma round64_int_nonzero: "i \<noteq> 0 \<Longrightarrow> round64 (of_int i) \<noteq> Fin 0"
proof
  assume nz: "i \<noteq> 0" and "round64 (of_int i) = Fin 0"
  then have "\<bar>real_of_int i\<bar> \<le> 2 powi (- 1075)" by (intro round64_zero)
  moreover have "(2::real) powi (- 1075) < 2 powi 0"
    by (intro power_int_strict_increasing) simp_all
  moreover have "1 \<le> \<bar>real_of_int i\<bar>" using nz by (simp flip: of_int_abs)
  ultimately show False by simp
qed

lemma float64_double_nonzero:
  assumes "round64 x = Fin x" and "x \<noteq> 0"
  shows "round64 (x + x) \<noteq> Fin 0"
proof
  assume "round64 (x + x) = Fin 0"
  then have "\<bar>x + x\<bar> \<le> 2 powi (- 1075)" by (rule round64_zero)
  moreover have "\<bar>x\<bar> \<le> \<bar>x + x\<bar>" by simp
  ultimately have "\<bar>x\<bar> \<le> 2 powi (- 1075)" by linarith
  then have "round64 x = Fin 0" by (rule round64_tiny)
  with assms show False by simp
qed

lemma round64_below_one:
  assumes "0 \<le> y" and "y \<le> 1 - 1 / real n" and "0 < n" and "n < 2 ^ 53"
  shows "round64 y \<noteq> Fin 1"
proof
  assume r: "round64 y = Fin 1"
  have npos: "0 < real n" using assms(3) by simp
  have "real n < 2 ^ 53" using assms(4) by (metis of_nat_less_numeral_power_cancel_iff)
  then have inv: "1 / 2 ^ 53 < 1 / real n"
    using npos by (simp add: field_simps)
  have y1: "y < 1" using assms(2) npos by (smt (verit) divide_pos_pos)
  have nz: "y \<noteq> 0" using r by (auto simp: round64_def)
  let ?u = "(2::real) powi (expo y - 52)"
  have upos: "0 < ?u" by simp
  have "\<bar>y\<bar> < 2 powi 0" using y1 assms(1) by simp
  from expo_le [OF nz this] have e: "expo y \<le> - 1" by simp
  from r nz have "of_int (rhe (y / ?u)) * ?u = 1"
    by (auto simp: round64_def Let_def split: if_splits)
  then have m: "of_int (rhe (y / ?u)) = 1 / ?u"
    using upos by (simp add: field_simps)
  have "\<bar>of_int (rhe (y / ?u)) - y / ?u\<bar> \<le> 1 / 2" by (rule rhe_err)
  then have "\<bar>(1 - y) / ?u\<bar> \<le> 1 / 2"
    unfolding m by (simp add: diff_divide_distrib)
  then have "1 - y \<le> ?u / 2"
    using upos y1 by (simp add: abs_divide field_simps)
  also have "?u / 2 = 2 powi (expo y - 53)" by (simp add: power_int_diff)
  also have "\<dots> \<le> 2 powi (- 54)"
    using e by (intro power_int_increasing) simp_all
  also have "\<dots> < 1 / 2 ^ 53" by (simp add: power_int_minus field_simps)
  finally have "1 - y < 1 / real n" using inv by linarith
  with assms(2) show False by linarith
qed

lemma round64_not_nan: "round64 x \<noteq> NaN"
  by (simp add: round64_def Let_def)



lemma round64_error:
  assumes "\<bar>x\<bar> \<le> 2 ^ 1023"
  shows "\<exists>r. round64 x = Fin r \<and> \<bar>r - x\<bar> \<le> \<bar>x\<bar> / 2 ^ 53 + 2 powi (- 1075)"
proof (cases "x = 0")
  case True
  then show ?thesis by (simp add: round64_def)
next
  case False
  define U where "U = (2::real) powi (expo x - 52)"
  define r where "r = of_int (rhe (x / U)) * U"
  have upos: "0 < U" by (simp add: U_def)
  have "r - x = (of_int (rhe (x / U)) - x / U) * U"
    using upos by (simp add: r_def field_simps)
  then have "\<bar>r - x\<bar> = \<bar>of_int (rhe (x / U)) - x / U\<bar> * U"
    using upos by (simp add: abs_mult)
  also have "\<dots> \<le> (1 / 2) * U"
    using upos rhe_err [of "x / U"] by (intro mult_right_mono) simp_all
  finally have e1: "\<bar>r - x\<bar> \<le> U / 2" by simp
  have u2: "U / 2 = 2 powi (expo x - 53)"
    by (simp add: U_def power_int_diff)
  have e2: "U / 2 \<le> \<bar>x\<bar> / 2 ^ 53 + 2 powi (- 1075)"
  proof (cases "expo x = - 1022")
    case True
    have "0 \<le> \<bar>x\<bar> / 2 ^ 53" by simp
    then show ?thesis unfolding u2 True by simp
  next
    case ne: False
    then have "expo x = \<lfloor>log 2 \<bar>x\<bar>\<rfloor>" by (auto simp: expo_def max_def split: if_splits)
    with binade(1) [OF False] have "2 powi (expo x) \<le> \<bar>x\<bar>" by simp
    then have "2 powi (expo x) / 2 ^ 53 \<le> \<bar>x\<bar> / 2 ^ 53"
      by (intro divide_right_mono) simp_all
    moreover have "(2::real) powi (expo x - 53) = 2 powi (expo x) / 2 ^ 53"
      by (simp add: power_int_diff)
    moreover have "0 \<le> (2::real) powi (- 1075)" by simp
    ultimately show ?thesis unfolding u2 by linarith
  qed
  have "(2::real) powi (- 1075) \<le> 2 powi 0"
    by (intro power_int_increasing) simp_all
  then have small: "(2::real) powi (- 1075) \<le> 1" by simp
  have "\<bar>r\<bar> \<le> \<bar>x\<bar> + \<bar>r - x\<bar>" by simp
  also have "\<dots> \<le> \<bar>x\<bar> + (\<bar>x\<bar> / 2 ^ 53 + 2 powi (- 1075))"
    using e1 e2 by linarith
  also have "\<dots> \<le> 2 ^ 1023 + (2 ^ 1023 / 2 ^ 53 + 1)"
    using assms small by (intro add_mono divide_right_mono) simp_all
  also have "\<dots> < (2::real) ^ 1024" by simp
  finally have "\<bar>r\<bar> < 2 ^ 1024" .
  then have "round64 x = Fin r"
    using False by (simp add: round64_def Let_def r_def U_def)
  with e1 e2 show ?thesis by (intro exI [of _ r]) simp
qed

lemma round64_error_rel:
  assumes "\<bar>x\<bar> \<le> 2 ^ 1023" and "2 powi (- 1000) \<le> a"
  shows "\<exists>r. round64 x = Fin r \<and> \<bar>r - x\<bar> \<le> (\<bar>x\<bar> + a) / 2 ^ 53"
proof -
  from round64_error [OF assms(1)] obtain r where
    r: "round64 x = Fin r" "\<bar>r - x\<bar> \<le> \<bar>x\<bar> / 2 ^ 53 + 2 powi (- 1075)" by blast
  have "(2::real) powi (- 1075) \<le> 2 powi (- 1053)"
    by (intro power_int_increasing) simp_all
  also have "\<dots> = 2 powi (- 1000) / 2 ^ 53"
    by (simp add: power_int_minus field_simps)
  also have "\<dots> \<le> a / 2 ^ 53"
    using assms(2) by (intro divide_right_mono) simp_all
  finally have "(2::real) powi (- 1075) \<le> a / 2 ^ 53" .
  with r(2) have "\<bar>r - x\<bar> \<le> (\<bar>x\<bar> + a) / 2 ^ 53"
    by (simp add: add_divide_distrib)
  with r(1) show ?thesis by blast
qed

subsection \<open>Distance estimator\<close>

lemma getcol_loc:
  assumes "loc t sp = Inr t'"
  shows "getcol t' c = (if has_column t c then Inr (map (cell t c) sp) else Inl KeyError)"
proof -
  from assms have t': "t' = \<lparr>index = sp,
                columns = map (\<lambda>(c, vs). (c, map (\<lambda>k. the (map_of (zip (index t) vs) k)) sp))
                              (columns t)\<rparr>"
    by (auto simp: loc_def split: if_splits)
  have m: "map_of (columns t') c = map_option (\<lambda>vs. map (\<lambda>k. the (map_of (zip (index t) vs) k)) sp) (map_of (columns t) c)"
    unfolding t' by (simp add: map_of_map)
  show ?thesis
  proof (cases "map_of (columns t) c")
    case None
    then have "\<not> has_column t c" by (simp add: has_column_def map_of_eq_None_iff)
    with None m show ?thesis by (simp add: getcol_def)
  next
    case (Some vs)
    then have "(c, vs) \<in> set (columns t)" by (rule map_of_SomeD)
    then have "has_column t c" unfolding has_column_def by force
    with Some m show ?thesis by (simp add: getcol_def cell_def)
  qed
qed

lemma map2_map_map: "map2 f (map g xs) (map h xs) = map (\<lambda>x. f (g x) (h x)) xs"
  by (induction xs) simp_all


lemma cell_in_column:
  assumes "rectangular t" and "map_of (columns t) c = Some vs" and "k \<in> set (index t)"
  shows "cell t c k \<in> set vs"
proof -
  from assms(2) have "(c, vs) \<in> set (columns t)" by (rule map_of_SomeD)
  with assms(1) have len: "length vs = length (index t)"
    by (auto simp: rectangular_def list_all_iff)
  from assms(3) len have "k \<in> fst ` set (zip (index t) vs)"
    by (metis map_fst_zip set_map)
  then obtain v where v: "map_of (zip (index t) vs) k = Some v"
    by (metis map_of_eq_None_iff not_Some_eq)
  then have "(k, v) \<in> set (zip (index t) vs)" by (rule map_of_SomeD)
  then have "v \<in> set vs" by (rule set_zip_rightD)
  with v assms(2) show ?thesis by (simp add: cell_def)
qed

lemma has_column_Some: "has_column t c \<Longrightarrow> \<exists>vs. map_of (columns t) c = Some vs"
  unfolding has_column_def by (metis map_of_eq_None_iff not_Some_eq set_map)








lemma shared_precursors_set:
  "distinct (shared_precursors table_1 table_2)"
  "set (shared_precursors table_1 table_2) = set (index table_1) \<inter> set (index table_2)"
  by (auto simp: shared_precursors_def)





subsection \<open>A table compared with itself\<close>

lemma vsub_self: "vsub v v = (if finite_val v then Fin 0 else NaN)"
  by (cases v) (simp_all add: vsub_def finite_val_def round64_0)

lemma nsub_self:
  "nsub c c = (case c of I64 i \<Rightarrow> I64 0 | F64 v \<Rightarrow> F64 (if finite_val v then Fin 0 else NaN))"
  by (cases c) (simp_all add: vsub_self wrap64_def)

lemma vdiv_zero: "v \<noteq> Fin 0 \<Longrightarrow> v \<noteq> NaN \<Longrightarrow> vdiv (Fin 0) v = Fin 0"
  by (cases v) (simp_all add: round64_0)

lemma self_abs: "nsub c c \<noteq> F64 NaN \<longleftrightarrow> usable ''absolute'' c"
  by (cases c) (auto simp: nsub_self usable_def finite_val_def split: val.splits)

lemma self_rel:
  assumes "float64 (to_val c)"
  shows "vmul (ndiv (nsub c c) (nadd c c)) (Fin 2) = (if usable ''relative'' c then Fin 0 else NaN)"
proof (cases c)
  case (I64 i)
  show ?thesis
  proof (cases "wrap64 (i + i) = 0")
    case True
    then show ?thesis
      by (simp add: I64 ndiv_def usable_def wrap64_def float_of_int_def round64_0)
  next
    case False
    have z: "float_of_int (wrap64 (i - i)) = Fin 0"
      by (simp add: float_of_int_def wrap64_def round64_0)
    have "float_of_int (wrap64 (i + i)) \<noteq> Fin 0"
      using False by (simp add: float_of_int_def round64_int_nonzero)
    moreover have "float_of_int (wrap64 (i + i)) \<noteq> NaN"
      by (simp add: float_of_int_def round64_not_nan)
    ultimately have "vdiv (Fin 0) (float_of_int (wrap64 (i + i))) = Fin 0"
      by (rule vdiv_zero)
    with False z show ?thesis
      by (simp add: I64 ndiv_def usable_def round64_0)
  qed
next
  case (F64 v)
  show ?thesis
  proof (cases v)
    case (Fin x)
    show ?thesis
    proof (cases "x = 0")
      case True
      then show ?thesis
        by (simp add: F64 Fin ndiv_def usable_def vsub_def round64_0)
    next
      case False
      from assms have fx: "round64 x = Fin x" by (simp add: F64 Fin float64_def)
      have "round64 (x + x) \<noteq> Fin 0" using fx False by (rule float64_double_nonzero)
      then have "vdiv (Fin 0) (round64 (x + x)) = Fin 0"
        by (intro vdiv_zero round64_not_nan)
      with False show ?thesis
        by (simp add: F64 Fin ndiv_def usable_def vsub_def round64_0)
    qed
  qed (simp_all add: F64 ndiv_def usable_def vsub_def)
qed

lemma median_float_zero:
  assumes "\<forall>v\<in>set vs. v = Fin 0 \<or> v = NaN"
  shows "median_float vs = (if \<exists>v\<in>set vs. v = Fin 0 then Fin 0 else NaN)"
proof -
  define xs where "xs = sort (filter (\<lambda>v. v \<noteq> NaN) vs)"
  have set_xs: "set xs = {x \<in> set vs. x \<noteq> NaN}"
    by (simp add: xs_def)
  have all0: "\<And>i. i < length xs \<Longrightarrow> xs ! i = Fin 0"
  proof -
    fix i assume "i < length xs"
    then have "xs ! i \<in> set xs" by simp
    with set_xs assms show "xs ! i = Fin 0" by auto
  qed
  show ?thesis
  proof (cases "\<exists>v\<in>set vs. v = Fin 0")
    case True
    then have "Fin 0 \<in> set xs" using set_xs by auto
    then have pos: "0 < length xs" by (cases xs) auto
    then have h: "length xs div 2 < length xs" and h1: "length xs div 2 - 1 < length xs"
      by arith+
    show ?thesis
      using True pos all0 [OF h] all0 [OF h1]
      by (simp add: median_float_def Let_def round64_0 flip: xs_def)
  next
    case False
    with assms have "set xs = {}" using set_xs by auto
    then have "xs = []" by simp
    with False show ?thesis
      by (simp add: median_float_def Let_def flip: xs_def)
  qed
qed

lemma median_int_zero:
  assumes "\<forall>i\<in>set ns. i = 0"
  shows "median_int ns = (if ns = [] then NaN else Fin 0)"
proof (cases "ns = []")
  case True
  then show ?thesis by (simp add: median_int_def)
next
  case False
  define xs where "xs = sort ns"
  have "set xs = set ns" by (simp add: xs_def)
  with assms have all0: "\<And>i. i < length xs \<Longrightarrow> xs ! i = 0"
    by (metis nth_mem)
  have pos: "0 < length xs" using False by (simp add: xs_def)
  then have h: "length xs div 2 < length xs" and h1: "length xs div 2 - 1 < length xs"
    by arith+
  show ?thesis
    using False pos all0 [OF h] all0 [OF h1]
    by (simp add: median_int_def Let_def float_of_int_def wrap64_def round64_0 flip: xs_def)
qed

lemma nanmedian_zero:
  assumes "\<forall>d\<in>set ds. d = I64 0 \<or> d = F64 (Fin 0) \<or> d = F64 NaN"
  shows "nanmedian ds = (if \<exists>d\<in>set ds. d \<noteq> F64 NaN then Fin 0 else NaN)"
proof (cases "list_all is_int ds")
  case True
  have all: "\<forall>d\<in>set ds. d = I64 0"
  proof
    fix d assume d: "d \<in> set ds"
    with True have "is_int d" by (simp add: list_all_iff)
    moreover from d assms have "d = I64 0 \<or> d = F64 (Fin 0) \<or> d = F64 NaN" by simp
    ultimately show "d = I64 0" by auto
  qed
  then have "\<forall>i\<in>set (map the_int ds). i = 0" by auto
  from median_int_zero [OF this] True all show ?thesis
    by (cases ds) (auto simp: nanmedian_def)
next
  case False
  have "\<forall>v\<in>set (map to_val ds). v = Fin 0 \<or> v = NaN"
    using assms by (auto simp: float_of_int_def round64_0)
  from median_float_zero [OF this]
  have "median_float (map to_val ds) = (if \<exists>d\<in>set ds. to_val d = Fin 0 then Fin 0 else NaN)"
    by (simp add: image_iff) metis
  moreover have "to_val d = Fin 0 \<longleftrightarrow> d \<noteq> F64 NaN" if "d \<in> set ds" for d
  proof -
    from that assms have "d = I64 0 \<or> d = F64 (Fin 0) \<or> d = F64 NaN" by simp
    then show ?thesis by (auto simp: float_of_int_def round64_0)
  qed
  then have "(\<exists>d\<in>set ds. to_val d = Fin 0) \<longleftrightarrow> (\<exists>d\<in>set ds. d \<noteq> F64 NaN)"
    by (rule bex_cong [OF refl])
  ultimately show ?thesis using False by (simp add: nanmedian_def)
qed

lemma float64_cell:
  assumes "float64_cells t" and "rectangular t" and "has_column t c" and "k \<in> set (index t)"
  shows "float64 (to_val (cell t c k))"
proof -
  from has_column_Some [OF assms(3)] obtain vs where vs: "map_of (columns t) c = Some vs" by blast
  then have "(c, vs) \<in> set (columns t)" by (rule map_of_SomeD)
  with assms(1) have "\<forall>v\<in>set vs. float64 (to_val v)"
    by (auto simp: float64_cells_def list_all_iff)
  with cell_in_column [OF assms(2) vs assms(4)] show ?thesis by blast
qed

lemma deltas_abs_self:
  "calculate_deltas_abs (map f sp) (map f sp) =
     (if \<exists>k\<in>set sp. usable ''absolute'' (f k) then Fin 0 else NaN)"
proof -
  have m: "map2 nsub (map f sp) (map f sp) = map (\<lambda>k. nsub (f k) (f k)) sp"
    by (rule map2_map_map)
  have "\<forall>d\<in>set (map (\<lambda>k. nsub (f k) (f k)) sp). d = I64 0 \<or> d = F64 (Fin 0) \<or> d = F64 NaN"
    by (auto simp: nsub_self split: num.splits)
  from nanmedian_zero [OF this] show ?thesis
    by (simp add: calculate_deltas_abs_def m self_abs)
qed

lemma deltas_rel_self:
  assumes "\<forall>k\<in>set sp. float64 (to_val (f k))"
  shows "calculate_deltas_rel (map f sp) (map f sp) =
     (if \<exists>k\<in>set sp. usable ''relative'' (f k) then Fin 0 else NaN)"
proof -
  have "map2 (\<lambda>v1 v2. F64 (vmul (ndiv (nsub v1 v2) (nadd v1 v2)) (Fin 2))) (map f sp) (map f sp) =
        map (\<lambda>k. F64 (vmul (ndiv (nsub (f k) (f k)) (nadd (f k) (f k))) (Fin 2))) sp"
    by (rule map2_map_map)
  also have "\<dots> = map (\<lambda>k. F64 (if usable ''relative'' (f k) then Fin 0 else NaN)) sp"
    using assms by (simp add: self_rel)
  finally have m: "map2 (\<lambda>v1 v2. F64 (vmul (ndiv (nsub v1 v2) (nadd v1 v2)) (Fin 2)))
                     (map f sp) (map f sp) =
                   map (\<lambda>k. F64 (if usable ''relative'' (f k) then Fin 0 else NaN)) sp" .
  have "\<forall>d\<in>set (map (\<lambda>k. F64 (if usable ''relative'' (f k) then Fin 0 else NaN)) sp).
          d = I64 0 \<or> d = F64 (Fin 0) \<or> d = F64 NaN"
    by auto
  from nanmedian_zero [OF this] show ?thesis
    by (simp add: calculate_deltas_rel_def m)
qed

lemma distance_loop_self:
  assumes "loc table sp = Inr t"
    and "set sp \<subseteq> set (index table)"
    and "float64_cells table" and "rectangular table"
    and "\<forall>(col, mode)\<in>set od. supported mode \<and> has_column table (calib_name calib col)"
  shows "distance_loop t t od calib =
         Inr (map (\<lambda>(col, mode). if \<exists>k\<in>set sp. usable mode (cell table (calib_name calib col) k)
                                  then Fin 0 else NaN) od)"
  using assms(5)
proof (induction od)
  case Nil
  show ?case by simp
next
  case (Cons item od)
  obtain col mode where item: "item = (col, mode)" by (cases item)
  from Cons.prems have IH: "distance_loop t t od calib =
         Inr (map (\<lambda>(col, mode). if \<exists>k\<in>set sp. usable mode (cell table (calib_name calib col) k)
                                  then Fin 0 else NaN) od)"
    by (intro Cons.IH) simp
  from Cons.prems item have sup: "supported mode"
    and c1: "has_column table (calib_name calib col)" by simp_all
  have g1: "getcol t (calib_name calib col) = Inr (map (cell table (calib_name calib col)) sp)"
    using getcol_loc [OF assms(1)] c1 by simp
  have fl: "\<forall>k\<in>set sp. float64 (to_val (cell table (calib_name calib col) k))"
    using float64_cell [OF assms(3,4) c1] assms(2) by blast
  show ?case
  proof (cases "mode = ''absolute''")
    case True
    then show ?thesis
      by (simp add: item g1 IH deltas_abs_self)
  next
    case False
    with sup have rel: "mode = ''relative''" by (simp add: supported_def)
    show ?thesis
      by (simp add: item rel g1 IH deltas_rel_self [OF fl])
  qed
qed

lemma distance_on_self:
  assumes "distinct shared" and "set shared = set (index table)"
    and "float64_cells table" and "rectangular table"
    and "\<forall>(col, mode)\<in>set offset_dict. supported mode \<and> has_column table (calib_name calib col)"
  shows "calculate_distance_on shared table table offset_dict calib =
         Inr (map (\<lambda>(col, mode). if \<exists>k\<in>set (index table).
                                       usable mode (cell table (calib_name calib col) k)
                                  then Fin 0 else NaN) offset_dict,
              card (set (index table)))"
proof -
  have s1: "set shared \<subseteq> set (index table)" using assms(2) by simp
  obtain t where l1: "loc table shared = Inr t" using s1 by (simp add: loc_def)
  have len: "length shared = card (set (index table))"
    using assms(1,2) distinct_card [of shared] by simp
  show ?thesis
    by (simp add: calculate_distance_on_def l1 len
        distance_loop_self [OF l1 s1 assms(3,4,5)] assms(2))
qed

text \<open>
  C8 (as amended). A table with unique keys, whose float64 cells hold float64 values,
  compared with itself under a mapping whose modes are \<open>absolute\<close> or \<open>relative\<close> and
  whose columns the table has: the distance of a dimension is exactly 0 as soon as one
  row has a usable value in the dimension's column, and nan otherwise; the shared-key
  count is the number of rows of the table. A float64 value is usable when it is finite
  and, in relative mode, not zero; an int64 value is usable in absolute mode, and in
  relative mode when its int64 sum with itself is not zero. The result is the same for
  every order in which the keys are enumerated.
\<close>

theorem calculate_distance_self:
  assumes "wf_table table" and "float64_cells table"
    and "\<forall>(col, mode)\<in>set offset_dict. supported mode
           \<and> has_column table (if calib then col @ ''_calib'' else col)"
  shows "calculate_distance table table offset_dict calib =
           Inr (map (\<lambda>(col, mode).
                       if \<exists>k\<in>set (index table).
                            usable mode (cell table (if calib then col @ ''_calib'' else col) k)
                       then Fin 0 else NaN) offset_dict,
                length (index table)) \<and>
         (\<forall>shared. distinct shared \<and> set shared = set (index table) \<longrightarrow>
            calculate_distance_on shared table table offset_dict calib =
            calculate_distance table table offset_dict calib)"
proof -
  have r: "rectangular table" and d: "distinct (index table)"
    using assms(1) by (simp_all add: wf_table_def)
  have cols: "\<forall>(col, mode)\<in>set offset_dict. supported mode
           \<and> has_column table (calib_name calib col)"
    using assms(3) by (simp add: calib_name_def)
  have c: "card (set (index table)) = length (index table)"
    using d by (rule distinct_card)
  have on: "calculate_distance_on shared table table offset_dict calib =
           Inr (map (\<lambda>(col, mode).
                       if \<exists>k\<in>set (index table).
                            usable mode (cell table (if calib then col @ ''_calib'' else col) k)
                       then Fin 0 else NaN) offset_dict,
                length (index table))"
    if "distinct shared" and "set shared = set (index table)" for shared
    using distance_on_self [OF that assms(2) r cols] by (simp add: calib_name_def c)
  have "calculate_distance table table offset_dict calib =
           Inr (map (\<lambda>(col, mode).
                       if \<exists>k\<in>set (index table).
                            usable mode (cell table (if calib then col @ ''_calib'' else col) k)
                       then Fin 0 else NaN) offset_dict,
                length (index table))"
    unfolding calculate_distance_def
    by (rule on) (simp_all add: shared_precursors_set)
  with on show ?thesis by simp
qed

theorem calculate_distance_self_witness:
  "wf_table df_1 \<and> float64_cells df_1 \<and>
   list_all (\<lambda>(col, mode). supported mode \<and> has_column df_1 col) test_offset_dict \<and>
   calculate_distance df_1 df_1 test_offset_dict False = Inr ([Fin 0, Fin 0], 5) \<and>
   calculate_distance_on (rev (index df_1)) df_1 df_1 test_offset_dict False =
     Inr ([Fin 0, Fin 0], 5)"
proof -
  have h1: "wf_table df_1" by (simp add: wf_table_def rectangular_def df_1_def)
  have h2: "float64_cells df_1"
    by (simp add: float64_cells_def df_1_def float64_def float_of_int_def round64_simps)
  have h3: "\<forall>(col, mode)\<in>set test_offset_dict. supported mode
      \<and> has_column df_1 (if False then col @ ''_calib'' else col)"
    by (simp add: test_offset_dict_def supported_def has_column_def df_1_def)
  note t = calculate_distance_self [OF h1 h2 h3]
  have e: "map (\<lambda>(col, mode).
                       if \<exists>k\<in>set (index df_1).
                            usable mode (cell df_1 (if False then col @ ''_calib'' else col) k)
                       then Fin 0 else NaN) test_offset_dict = [Fin 0, Fin 0]"
    by (simp add: test_offset_dict_def df_1_def cell_def usable_def wrap64_def)
  have l: "length (index df_1) = 5" by (simp add: df_1_def)
  from t have run: "calculate_distance df_1 df_1 test_offset_dict False = Inr ([Fin 0, Fin 0], 5)"
    unfolding e l by simp
  have "distinct (index df_1)" by (simp add: df_1_def)
  then have "distinct (rev (index df_1)) \<and> set (rev (index df_1)) = set (index df_1)"
    by simp
  with t have on: "calculate_distance_on (rev (index df_1)) df_1 df_1 test_offset_dict False =
     Inr ([Fin 0, Fin 0], 5)"
    unfolding run by blast
  from h3 have h3': "list_all (\<lambda>(col, mode). supported mode \<and> has_column df_1 col) test_offset_dict"
    by (simp add: list_all_iff)
  show ?thesis
    using h1 h2 h3' run on by (intro conjI)
qed

text \<open>
  The claim as stated fails: the empty table, and a table whose only row has the value 0
  in a relative dimension, have the distance nan with themselves.
\<close>

theorem calculate_distance_self_counterexample:
  "calculate_distance \<lparr>index = ([] :: string list), columns = [(''mass'', [])]\<rparr>
     \<lparr>index = [], columns = [(''mass'', [])]\<rparr> [(''mass'', ''absolute'')] False =
     Inr ([NaN], 0) \<and>
   calculate_distance \<lparr>index = [''A''], columns = [(''mobility'', [F64 (Fin 0)])]\<rparr>
     \<lparr>index = [''A''], columns = [(''mobility'', [F64 (Fin 0)])]\<rparr>
     [(''mobility'', ''relative'')] False =
     Inr ([NaN], 1)"
  by (simp add: calculate_distance_def calculate_distance_on_def shared_precursors_def
      loc_def getcol_def calib_name_def calculate_deltas_abs_def calculate_deltas_rel_def
      nanmedian_def median_int_def median_float_def ndiv_def vsub_def round64_0)

subsection \<open>Unsupported modes\<close>

lemma getcol_error: "getcol t c = Inl e \<Longrightarrow> e = KeyError"
  by (simp add: getcol_def split: option.splits)

lemma getitem_error: "getitem d c = Inl e \<Longrightarrow> e = KeyError"
  by (simp add: getitem_def split: option.splits)

lemma calib_table_step:
  "supported mode \<Longrightarrow>
   snd (calib_table table delta [(col, mode)]) = None \<or>
   snd (calib_table table delta [(col, mode)]) = Some KeyError"
  by (auto simp: supported_def split: sum.splits dest: getcol_error getitem_error)

lemma distance_loop_append:
  "distance_loop t1 t2 (pre @ rest) calib =
     (case distance_loop t1 t2 pre calib of Inl e \<Rightarrow> Inl e | Inr ds \<Rightarrow>
      (case distance_loop t1 t2 rest calib of Inl e \<Rightarrow> Inl e | Inr ds' \<Rightarrow> Inr (ds @ ds')))"
proof (induction pre)
  case Nil
  show ?case by (simp split: sum.splits)
next
  case (Cons item pre)
  obtain col mode where item: "item = (col, mode)" by (cases item)
  show ?case
    unfolding item using Cons.IH by (simp split: sum.splits)
qed

lemma distance_loop_unsupported:
  "distance_loop t1 t2 od calib = Inl (NotImplementedError m) \<longleftrightarrow>
   (\<exists>pre col post. od = pre @ (col, m) # post \<and> \<not> supported m \<and>
      (\<exists>ds. distance_loop t1 t2 pre calib = Inr ds))"
proof
  assume "distance_loop t1 t2 od calib = Inl (NotImplementedError m)"
  then show "\<exists>pre col post. od = pre @ (col, m) # post \<and> \<not> supported m \<and>
      (\<exists>ds. distance_loop t1 t2 pre calib = Inr ds)"
  proof (induction od)
    case Nil
    then show ?case by simp
  next
    case (Cons item od)
    obtain col mode where item: "item = (col, mode)" by (cases item)
    show ?case
    proof (cases "supported mode")
      case False
      with Cons.prems item have "m = mode"
        by (simp add: supported_def)
      with False item have "item # od = [] @ (col, m) # od \<and> \<not> supported m \<and>
          (\<exists>ds. distance_loop t1 t2 [] calib = Inr ds)" by simp
      then show ?thesis by blast
    next
      case True
      from Cons.prems item True obtain v1 v2 where
        g1: "getcol t1 (calib_name calib col) = Inr v1" and
        g2: "getcol t2 (calib_name calib col) = Inr v2" and
        rest: "distance_loop t1 t2 od calib = Inl (NotImplementedError m)"
        by (auto simp: supported_def split: sum.splits if_splits dest: getcol_error)
      from Cons.IH [OF rest] obtain pre c post ds where
        od: "od = pre @ (c, m) # post" and m: "\<not> supported m" and
        pre: "distance_loop t1 t2 pre calib = Inr ds" by blast
      from True g1 g2 pre item have "\<exists>ds'. distance_loop t1 t2 (item # pre) calib = Inr ds'"
        by (auto simp: supported_def)
      moreover from od have "item # od = (item # pre) @ (c, m) # post" by simp
      ultimately show ?thesis using m by blast
    qed
  qed
next
  assume "\<exists>pre col post. od = pre @ (col, m) # post \<and> \<not> supported m \<and>
      (\<exists>ds. distance_loop t1 t2 pre calib = Inr ds)"
  then obtain pre col post ds where od: "od = pre @ (col, m) # post" and m: "\<not> supported m"
    and pre: "distance_loop t1 t2 pre calib = Inr ds" by blast
  from m have "distance_loop t1 t2 ((col, m) # post) calib = Inl (NotImplementedError m)"
    by (simp add: supported_def)
  then show "distance_loop t1 t2 od calib = Inl (NotImplementedError m)"
    by (simp add: od distance_loop_append pre)
qed

lemma calculate_distance_on_unsupported:
  "calculate_distance_on shared table_1 table_2 od calib = Inl (NotImplementedError m) \<longleftrightarrow>
   (\<exists>pre col post. od = pre @ (col, m) # post \<and> \<not> supported m \<and>
      (\<exists>r. calculate_distance_on shared table_1 table_2 pre calib = Inr r))"
proof (cases "loc table_1 shared")
  case (Inl e)
  then show ?thesis by (simp add: calculate_distance_on_def loc_def split: if_splits)
next
  case l1: (Inr t1)
  show ?thesis
  proof (cases "loc table_2 shared")
    case (Inl e)
    then show ?thesis by (simp add: calculate_distance_on_def l1 loc_def split: if_splits)
  next
    case l2: (Inr t2)
    have a: "calculate_distance_on shared table_1 table_2 od calib = Inl (NotImplementedError m)
          \<longleftrightarrow> distance_loop t1 t2 od calib = Inl (NotImplementedError m)"
      by (simp add: calculate_distance_on_def l1 l2 split: sum.splits)
    have b: "(\<exists>r. calculate_distance_on shared table_1 table_2 pre calib = Inr r)
          \<longleftrightarrow> (\<exists>ds. distance_loop t1 t2 pre calib = Inr ds)" for pre
      by (simp add: calculate_distance_on_def l1 l2 split: sum.splits)
    show ?thesis
      unfolding a b by (rule distance_loop_unsupported)
  qed
qed

lemma calib_table_append:
  "calib_table table delta (pre @ rest) =
     (case calib_table table delta pre of
        (table', None) \<Rightarrow> calib_table table' delta rest
      | (table', Some e) \<Rightarrow> (table', Some e))"
proof (induction pre arbitrary: table)
  case Nil
  show ?case by simp
next
  case (Cons item pre)
  obtain col mode where item: "item = (col, mode)" by (cases item)
  show ?case
    unfolding item using Cons.IH by (simp split: sum.splits)
qed

lemma calib_table_unsupported:
  "snd (calib_table table delta od) = Some (NotImplementedError m) \<longleftrightarrow>
   (\<exists>pre col post. od = pre @ (col, m) # post \<and> \<not> supported m \<and>
      snd (calib_table table delta pre) = None)"
proof
  assume "snd (calib_table table delta od) = Some (NotImplementedError m)"
  then show "\<exists>pre col post. od = pre @ (col, m) # post \<and> \<not> supported m \<and>
      snd (calib_table table delta pre) = None"
  proof (induction od arbitrary: table)
    case Nil
    then show ?case by simp
  next
    case (Cons item od)
    obtain col mode where item: "item = (col, mode)" by (cases item)
    show ?case
    proof (cases "supported mode")
      case False
      with Cons.prems item have "m = mode"
        by (simp add: supported_def)
      with False item have "item # od = [] @ (col, m) # od \<and> \<not> supported m \<and>
          snd (calib_table table delta []) = None" by simp
      then show ?thesis by blast
    next
      case True
      obtain table' r where step': "calib_table table delta [item] = (table', r)"
        by (cases "calib_table table delta [item]")
      have app: "calib_table table delta (item # od) =
          (case r of None \<Rightarrow> calib_table table' delta od | Some e \<Rightarrow> (table', Some e))"
        using calib_table_append [of table delta "[item]" od] step' by simp
      from calib_table_step [OF True, of table delta col] item step'
      have "r = None \<or> r = Some KeyError" by simp
      with Cons.prems app have step: "calib_table table delta [item] = (table', None)" and
        rest: "snd (calib_table table' delta od) = Some (NotImplementedError m)"
        using step' by auto
      from Cons.IH [OF rest] obtain pre c post where
        od: "od = pre @ (c, m) # post" and m: "\<not> supported m" and
        pre: "snd (calib_table table' delta pre) = None" by blast
      have "calib_table table delta (item # pre) = calib_table table' delta pre"
        using calib_table_append [of table delta "[item]" pre] step by simp
      with pre have "snd (calib_table table delta (item # pre)) = None" by simp
      moreover from od have "item # od = (item # pre) @ (c, m) # post" by simp
      ultimately show ?thesis using m by blast
    qed
  qed
next
  assume "\<exists>pre col post. od = pre @ (col, m) # post \<and> \<not> supported m \<and>
      snd (calib_table table delta pre) = None"
  then obtain pre col post where od: "od = pre @ (col, m) # post" and m: "\<not> supported m"
    and pre: "snd (calib_table table delta pre) = None" by blast
  obtain table' where t': "calib_table table delta pre = (table', None)"
    using pre by (cases "calib_table table delta pre") simp
  from m have "calib_table table' delta ((col, m) # post) = (table', Some (NotImplementedError m))"
    by (simp add: supported_def)
  then show "snd (calib_table table delta od) = Some (NotImplementedError m)"
    by (simp add: od calib_table_append t')
qed

text \<open>
  C6 (as amended). \<open>calculate_distance\<close> and \<open>calib_table\<close> raise the unsupported-mode
  error for a mode \<open>m\<close> exactly when the mapping has a dimension with the mode \<open>m\<close>,
  neither \<open>absolute\<close> nor \<open>relative\<close>, and the call on the dimensions before it (in the
  order of the mapping) raises nothing. A column or an offset that is missing raises
  KeyError, which reaches the caller as well.
\<close>

theorem unsupported_mode_error:
  assumes "wf_table table_1" and "wf_table table_2"
  shows
  "(calculate_distance_on shared table_1 table_2 offset_dict calib = Inl (NotImplementedError m)
      \<longleftrightarrow> (\<exists>pre col post. offset_dict = pre @ (col, m) # post \<and> \<not> supported m \<and>
            (\<exists>r. calculate_distance_on shared table_1 table_2 pre calib = Inr r))) \<and>
   (snd (calib_table table delta offset_dict) = Some (NotImplementedError m)
      \<longleftrightarrow> (\<exists>pre col post. offset_dict = pre @ (col, m) # post \<and> \<not> supported m \<and>
            snd (calib_table table delta pre) = None))"
  using calculate_distance_on_unsupported [of shared table_1 table_2 offset_dict calib m]
    calib_table_unsupported [of table delta offset_dict m]
  by blast

theorem unsupported_mode_error_witness:
  "wf_table df_1 \<and> wf_table df_2 \<and>
   calculate_distance_on [''A'', ''B'', ''C'', ''D''] df_1 df_2
     [(''mass'', ''absolute''), (''mobility'', ''cubic'')] False =
     Inl (NotImplementedError ''cubic'') \<and>
   snd (calib_table features_1 [(''mass'', Fin 1)]
     [(''mass'', ''absolute''), (''mobility'', ''cubic'')]) =
     Some (NotImplementedError ''cubic'')"
proof -
  have w1: "wf_table df_1" by (simp add: wf_table_def rectangular_def df_1_def)
  have w2: "wf_table df_2" by (simp add: wf_table_def rectangular_def df_2_def)
  have split: "[(''mass'', ''absolute''), (''mobility'', ''cubic'')] =
      [(''mass'', ''absolute'')] @ (''mobility'', ''cubic'') # []" by simp
  have uns: "\<not> supported ''cubic''" by (simp add: supported_def)
  have "calculate_distance_on [''A'', ''B'', ''C'', ''D''] df_1 df_2
          [(''mass'', ''absolute'')] False = Inr ([Fin (- 1)], 4)"
    by (simp add: calculate_distance_on_def df_1_def df_2_def loc_def getcol_def calib_name_def
        calculate_deltas_abs_def nanmedian_def median_int_def wrap64_def float_of_int_def
        Let_def round64_simps)
  then have a: "\<exists>r. calculate_distance_on [''A'', ''B'', ''C'', ''D''] df_1 df_2
          [(''mass'', ''absolute'')] False = Inr r" by blast
  have b: "snd (calib_table features_1 [(''mass'', Fin 1)] [(''mass'', ''absolute'')]) = None"
    by (simp add: features_1_def getcol_def getitem_def source_column_def has_column_def)
  from w1 w2 split uns a b show ?thesis
    using unsupported_mode_error [OF w1 w2, of "[''A'', ''B'', ''C'', ''D'']"
        "[(''mass'', ''absolute''), (''mobility'', ''cubic'')]" False "''cubic''"
        features_1 "[(''mass'', Fin 1)]"]
    by blast
qed

text \<open>
  The claim as stated fails: with a column missing, KeyError is raised although a later
  dimension has an unsupported mode, and KeyError is raised with supported modes only.
\<close>

theorem unsupported_mode_error_counterexample:
  "calculate_distance df_1 df_2 [(''rt'', ''absolute''), (''mass'', ''cubic'')] False =
     Inl KeyError \<and>
   snd (calib_table features_1 [(''mass'', Fin 1)] [(''rt'', ''absolute''), (''mass'', ''cubic'')]) =
     Some KeyError \<and>
   calculate_distance df_1 df_2 [(''rt'', ''absolute'')] False = Inl KeyError"
  by (simp add: calculate_distance_def calculate_distance_on_def shared_precursors_def
      df_1_def df_2_def features_1_def loc_def getcol_def getitem_def calib_name_def
      source_column_def has_column_def)

subsection \<open>Calibrator\<close>

text \<open>
  C2. On a table that has a dimension under its apex name only, \<open>calib_table\<close> in
  relative mode raises KeyError and writes no calibrated column: it reads the offset
  under the apex name and the values under the canonical name. In absolute mode, on the
  same table, it writes the apex column minus the offset.
\<close>

theorem calib_table_relative_apex:
  "calib_table apex_table apex_delta [(''mz'', ''relative'')] = (apex_table, Some KeyError) \<and>
   calib_table apex_table apex_delta [(''mz'', ''absolute'')] =
     (\<lparr>index = [0, 1],
       columns = [(''mz_apex'', [Fin 100, Fin 200]),
                  (''mz_calib'', [Fin (199 / 2), Fin (399 / 2)])]\<rparr>, None)"
proof -
  have r: "round64 (199 / 2) = Fin (199 / 2)" "round64 (399 / 2) = Fin (399 / 2)"
    by (rule round64_exact [of _ 199 "- 1"], simp_all)
       (rule round64_exact [of _ 399 "- 1"], simp_all)
  show ?thesis
    by (simp add: apex_table_def apex_delta_def getcol_def getitem_def source_column_def
        has_column_def setcol_def vsub_def r)
qed

subsection \<open>Global aligner\<close>

text \<open>
  C7. With three runs and two of the three pairwise distances missing, one valid
  comparison is left for two unknowns. \<open>align\<close> drops the two rows from the design
  matrix and from the observations and runs the regression on the remaining row, but it
  does not log the low-overlap warning: the test compares the number of all rows of
  \<open>deltas\<close>, 3, with the number of unknowns.
\<close>

theorem align_low_overlap_not_logged:
  "valid_comparisons sparse_deltas = 1 \<and> unknowns [''A'', ''B'', ''C''] = 2 \<and>
   align regress sparse_deltas [''A'', ''B'', ''C''] None =
     (case regress [[Fin 1, Fin 0]] [[Fin 1, Fin 2]] None of
        Inl e \<Rightarrow> ([], Inl e)
      | Inr reg \<Rightarrow> ([''Regression score is '' @ score_text reg], Inr (predict_eye reg)))"
proof -
  have nn: "not_nan sparse_deltas = [True, False, False]"
    by (simp add: not_nan_def rows_def row_values_def sparse_deltas_def upt_rec)
  have dm: "design_matrix (index sparse_deltas) [''A'', ''B'', ''C''] =
            Inr [[Fin 1, Fin 0], [Fin 1, Fin 1], [Fin 0, Fin 1]]"
    by (simp add: sparse_deltas_def design_row_def upt_rec)
  have rw: "rows sparse_deltas = [[Fin 1, Fin 2], [NaN, NaN], [NaN, NaN]]"
    by (simp add: rows_def row_values_def sparse_deltas_def upt_rec)
  have ix: "index sparse_deltas \<noteq> []" "length (index sparse_deltas) = 3"
    by (simp_all add: sparse_deltas_def)
  show ?thesis
    by (simp add: valid_comparisons_def unknowns_def align_def nn dm rw ix select_def
        split: sum.splits)
qed

lemma frame_of_rows_columns:
  assumes "frame_of_rows cols x = Inr a"
  shows "columns a = map (\<lambda>(j, c). (c, map (\<lambda>row. row ! j) x)) (enumerate 0 cols)"
    and "index a = [0..<length x]"
  using assms by (auto simp: frame_of_rows_def split: if_splits)

lemma sum_list_centered:
  "sum_list (map (\<lambda>v. f v - m) vs) = sum_list (map f vs) - real (length vs) * (m::real)"
  by (induction vs) (simp_all add: algebra_simps)

lemma exact_centering_sum:
  assumes "exact_centering vs"
  shows "sum_list (map real_of (map (\<lambda>v. vsub v (pd_mean vs)) vs)) = 0"
proof -
  let ?m = "sum_list (map real_of vs) / real (length vs)"
  from assms have d: "\<forall>v\<in>set vs. vsub v (pd_mean vs) = Fin (real_of v - ?m)"
    unfolding exact_centering_def list_all_iff by blast
  from assms have m: "pd_mean vs = Fin ?m"
    unfolding exact_centering_def by blast
  from m have ne: "vs \<noteq> []" by (auto simp: pd_mean_def)
  have "map real_of (map (\<lambda>v. vsub v (pd_mean vs)) vs) = map (\<lambda>v. real_of v - ?m) vs"
    using d by (simp add: real_of_def)
  also have "sum_list \<dots> = sum_list (map real_of vs) - real (length vs) * ?m"
    by (rule sum_list_centered)
  also have "\<dots> = 0" using ne by simp
  finally show ?thesis .
qed

lemma float_sum_bound:
  assumes "2 powi (- 1000) \<le> a" and "a \<le> 2 ^ 1000"
  shows "\<forall>v\<in>set rs. \<bar>v\<bar> \<le> a \<Longrightarrow> k + length rs \<le> 2 ^ 20 \<Longrightarrow> \<bar>s\<bar> \<le> 2 * real k * a \<Longrightarrow>
         \<exists>t. foldl vadd (Fin s) (map Fin rs) = Fin t \<and>
             \<bar>t\<bar> \<le> 2 * real (k + length rs) * a \<and>
             \<bar>t - (s + sum_list rs)\<bar> \<le>
               (real (k + length rs) * (real (k + length rs) + 1) - real k * (real k + 1)) * a / 2 ^ 53"
proof (induction rs arbitrary: s k)
  case Nil
  then show ?case by simp
next
  case (Cons v rs)
  have apos: "0 < a"
  proof -
    have "0 < (2::real) powi (- 1000)" by simp
    with assms(1) show ?thesis by linarith
  qed
  from Cons.prems(1) have v: "\<bar>v\<bar> \<le> a" and rs: "\<forall>v\<in>set rs. \<bar>v\<bar> \<le> a" by simp_all
  from Cons.prems(2) have k1: "k + 1 \<le> 2 ^ 20" and k2: "(k + 1) + length rs \<le> 2 ^ 20" by simp_all
  from k1 have rk: "real k + 1 \<le> 2 ^ 20"
    by (metis of_nat_le_iff of_nat_add of_nat_1 of_nat_numeral of_nat_power)
  define x where "x = s + v"
  have xb: "\<bar>x\<bar> \<le> (2 * real k + 1) * a"
  proof -
    have "\<bar>x\<bar> \<le> \<bar>s\<bar> + \<bar>v\<bar>" unfolding x_def by (rule abs_triangle_ineq)
    also have "\<dots> \<le> 2 * real k * a + a" using Cons.prems(3) v by linarith
    finally show ?thesis by (simp add: algebra_simps)
  qed
  have "(2 * real k + 1) * a \<le> 2 ^ 21 * a"
    using rk apos by (intro mult_right_mono) simp_all
  also have "\<dots> \<le> 2 ^ 21 * 2 ^ 1000"
    using assms(2) by (intro mult_left_mono) simp_all
  also have "\<dots> \<le> (2::real) ^ 1023" by simp
  finally have "\<bar>x\<bar> \<le> 2 ^ 1023" using xb by linarith
  from round64_error_rel [OF this assms(1)] obtain s' where
    s': "round64 x = Fin s'" and e: "\<bar>s' - x\<bar> \<le> (\<bar>x\<bar> + a) / 2 ^ 53" by blast
  have "(\<bar>x\<bar> + a) / 2 ^ 53 \<le> ((2 * real k + 1) * a + a) / 2 ^ 53"
    using xb by (intro divide_right_mono) simp_all
  also have "(2 * real k + 1) * a + a = (2 * real k + 2) * a" by (simp add: algebra_simps)
  finally have e': "\<bar>s' - x\<bar> \<le> (2 * real k + 2) * a / 2 ^ 53" using e by linarith
  have "(2 * real k + 2) / 2 ^ 53 \<le> (1::real)"
    using rk by simp
  then have "(2 * real k + 2) / 2 ^ 53 * a \<le> 1 * a"
    using apos by (intro mult_right_mono) simp_all
  then have small: "(2 * real k + 2) * a / 2 ^ 53 \<le> a" by simp
  have sb: "\<bar>s'\<bar> \<le> 2 * real (k + 1) * a"
  proof -
    have "\<bar>s'\<bar> \<le> \<bar>x\<bar> + \<bar>s' - x\<bar>" by simp
    also have "\<dots> \<le> (2 * real k + 1) * a + a" using xb e' small by linarith
    finally show ?thesis by (simp add: algebra_simps)
  qed
  from Cons.IH [OF rs k2 sb] obtain t where
    t: "foldl vadd (Fin s') (map Fin rs) = Fin t"
    and tb: "\<bar>t\<bar> \<le> 2 * real (k + 1 + length rs) * a"
    and te: "\<bar>t - (s' + sum_list rs)\<bar> \<le>
               (real (k + 1 + length rs) * (real (k + 1 + length rs) + 1)
                 - real (k + 1) * (real (k + 1) + 1)) * a / 2 ^ 53"
    by blast
  have f: "foldl vadd (Fin s) (map Fin (v # rs)) = Fin t"
    using t s' by (simp add: x_def)
  have l: "k + length (v # rs) = k + 1 + length rs" by simp
  have "\<bar>t - (s + sum_list (v # rs))\<bar> = \<bar>(t - (s' + sum_list rs)) + (s' - x)\<bar>"
    by (simp add: x_def)
  also have "\<dots> \<le> \<bar>t - (s' + sum_list rs)\<bar> + \<bar>s' - x\<bar>"
    by (rule abs_triangle_ineq)
  also have "\<dots> \<le> (real (k + 1 + length rs) * (real (k + 1 + length rs) + 1)
                 - real (k + 1) * (real (k + 1) + 1)) * a / 2 ^ 53
               + (2 * real k + 2) * a / 2 ^ 53"
    using te e' by linarith
  also have "\<dots> = (real (k + 1 + length rs) * (real (k + 1 + length rs) + 1)
                 - real k * (real k + 1)) * a / 2 ^ 53"
    by (simp add: field_simps)
  finally have "\<bar>t - (s + sum_list (v # rs))\<bar> \<le>
      (real (k + length (v # rs)) * (real (k + length (v # rs)) + 1) - real k * (real k + 1))
        * a / 2 ^ 53"
    unfolding l .
  with f tb show ?case unfolding l by blast
qed

lemma sum_list_close:
  "\<forall>v\<in>set rs. \<bar>f v - g v\<bar> \<le> (c::real) \<Longrightarrow>
   \<bar>sum_list (map f rs) - sum_list (map g rs)\<bar> \<le> real (length rs) * c"
proof (induction rs)
  case Nil
  show ?case by simp
next
  case (Cons v rs)
  then have a: "\<bar>f v - g v\<bar> \<le> c"
    and b: "\<bar>sum_list (map f rs) - sum_list (map g rs)\<bar> \<le> real (length rs) * c" by simp_all
  have "\<bar>sum_list (map f (v # rs)) - sum_list (map g (v # rs))\<bar> =
        \<bar>(f v - g v) + (sum_list (map f rs) - sum_list (map g rs))\<bar>" by simp
  also have "\<dots> \<le> \<bar>f v - g v\<bar> + \<bar>sum_list (map f rs) - sum_list (map g rs)\<bar>"
    by (rule abs_triangle_ineq)
  also have "\<dots> \<le> c + real (length rs) * c" using a b by linarith
  finally show ?case by (simp add: algebra_simps)
qed

lemma bounded_list:
  "list_all (bounded_by a) vs \<Longrightarrow> \<exists>rs. vs = map Fin rs \<and> (\<forall>v\<in>set rs. \<bar>v\<bar> \<le> a)"
proof (induction vs)
  case Nil
  show ?case by simp
next
  case (Cons v vs)
  then obtain rs where rs: "vs = map Fin rs" "\<forall>v\<in>set rs. \<bar>v\<bar> \<le> a" by auto
  from Cons.prems obtain r where r: "v = Fin r" "\<bar>r\<bar> \<le> a"
    by (cases v) (simp_all add: bounded_by_def)
  have "v # vs = map Fin (r # rs) \<and> (\<forall>v\<in>set (r # rs). \<bar>v\<bar> \<le> a)"
    using rs r by simp
  then show ?case by (rule exI)
qed

lemma centred_sum_bound:
  assumes a1: "2 powi (- 1000) \<le> a" and a2: "a \<le> 2 ^ 1000"
    and ne: "rs \<noteq> []" and len: "length rs \<le> 2 ^ 20" and b: "\<forall>v\<in>set rs. \<bar>v\<bar> \<le> a"
  shows "list_all finite_val (map (\<lambda>v. vsub v (pd_mean (map Fin rs))) (map Fin rs)) \<and>
         \<bar>sum_list (map real_of (map (\<lambda>v. vsub v (pd_mean (map Fin rs))) (map Fin rs)))\<bar> \<le>
           (real (length rs) * real (length rs) + 9 * real (length rs)) * a / 2 ^ 53"
proof -
  define n where "n = real (length rs)"
  have n1: "1 \<le> n" using ne by (cases rs) (simp_all add: n_def)
  have apos: "0 < a"
  proof -
    have "0 < (2::real) powi (- 1000)" by simp
    with a1 show ?thesis by linarith
  qed
  have a3: "4 * a \<le> 2 ^ 1023"
  proof -
    have "4 * a \<le> 4 * 2 ^ 1000" using a2 by simp
    also have "\<dots> \<le> (2::real) ^ 1023" by simp
    finally show ?thesis .
  qed
  from float_sum_bound [OF a1 a2 b, of 0 0] len obtain t where
    t: "foldl vadd (Fin 0) (map Fin rs) = Fin t"
    and tb: "\<bar>t\<bar> \<le> 2 * n * a"
    and te: "\<bar>t - sum_list rs\<bar> \<le> n * (n + 1) * a / 2 ^ 53"
    by (auto simp: n_def)
  have nn: "filter (\<lambda>v. v \<noteq> NaN) (map Fin rs) = map Fin rs"
    by (simp add: filter_id_conv)
  have mean: "pd_mean (map Fin rs) = round64 (t / n)"
    using ne n1 by (simp add: pd_mean_def nn vsum_def t n_def)
  have qb: "\<bar>t / n\<bar> \<le> 2 * a"
  proof -
    have "\<bar>t / n\<bar> = \<bar>t\<bar> / n" using n1 by simp
    also have "\<dots> \<le> (2 * n * a) / n" using tb n1 by (intro divide_right_mono) simp_all
    also have "\<dots> = 2 * a" using n1 by simp
    finally show ?thesis .
  qed
  then have "\<bar>t / n\<bar> \<le> 2 ^ 1023" using a3 apos by linarith
  from round64_error_rel [OF this a1] obtain m where
    m: "round64 (t / n) = Fin m" and me: "\<bar>m - t / n\<bar> \<le> (\<bar>t / n\<bar> + a) / 2 ^ 53" by blast
  have "(\<bar>t / n\<bar> + a) / 2 ^ 53 \<le> (2 * a + a) / 2 ^ 53"
    using qb by (intro divide_right_mono) simp_all
  with me have me': "\<bar>m - t / n\<bar> \<le> 3 * a / 2 ^ 53" by simp
  have "3 * a / 2 ^ 53 \<le> a" using apos by simp
  with me' have "\<bar>m - t / n\<bar> \<le> a" by linarith
  then have mb: "\<bar>m\<bar> \<le> 3 * a" using qb by linarith
  have each: "\<exists>d. vsub (Fin v) (Fin m) = Fin d \<and> \<bar>d - (v - m)\<bar> \<le> 5 * a / 2 ^ 53"
    if "v \<in> set rs" for v
  proof -
    from that b have vb: "\<bar>v\<bar> \<le> a" by simp
    with mb have db: "\<bar>v + - m\<bar> \<le> 4 * a" by linarith
    with a3 have "\<bar>v + - m\<bar> \<le> 2 ^ 1023" by linarith
    from round64_error_rel [OF this a1] obtain d where
      d: "round64 (v + - m) = Fin d" and de: "\<bar>d - (v + - m)\<bar> \<le> (\<bar>v + - m\<bar> + a) / 2 ^ 53"
      by blast
    have "(\<bar>v + - m\<bar> + a) / 2 ^ 53 \<le> (4 * a + a) / 2 ^ 53"
      using db by (intro divide_right_mono) simp_all
    with de have "\<bar>d - (v - m)\<bar> \<le> 5 * a / 2 ^ 53" by simp
    with d show ?thesis by (simp add: vsub_def)
  qed
  let ?f = "\<lambda>v. real_of (vsub (Fin v) (Fin m))"
  have "finite_val (vsub (Fin v) (Fin m))" if "v \<in> set rs" for v
    using each [OF that] by (auto simp: finite_val_def)
  then have fin: "list_all finite_val (map (\<lambda>v. vsub v (pd_mean (map Fin rs))) (map Fin rs))"
    by (simp add: list_all_iff mean m)
  have close: "\<forall>v\<in>set rs. \<bar>?f v - (v - m)\<bar> \<le> 5 * a / 2 ^ 53"
  proof
    fix v assume "v \<in> set rs"
    from each [OF this] show "\<bar>?f v - (v - m)\<bar> \<le> 5 * a / 2 ^ 53"
      by (auto simp: real_of_def)
  qed
  have s1: "\<bar>sum_list (map ?f rs) - sum_list (map (\<lambda>v. v - m) rs)\<bar> \<le> n * (5 * a / 2 ^ 53)"
    unfolding n_def using close by (rule sum_list_close)
  have s2: "sum_list (map (\<lambda>v. v - m) rs) = sum_list rs - n * m"
    using sum_list_centered [of "\<lambda>v. v" m rs] by (simp add: n_def)
  have "\<bar>t - n * m\<bar> = n * \<bar>m - t / n\<bar>"
  proof -
    have "t - n * m = n * (t / n - m)" using n1 by (simp add: field_simps)
    then have "\<bar>t - n * m\<bar> = \<bar>n\<bar> * \<bar>t / n - m\<bar>" by (simp add: abs_mult)
    then show ?thesis using n1 by (simp add: abs_minus_commute)
  qed
  also have "\<dots> \<le> n * (3 * a / 2 ^ 53)"
    using me' n1 by (intro mult_left_mono) simp_all
  finally have s3: "\<bar>t - n * m\<bar> \<le> n * (3 * a / 2 ^ 53)" .
  have "\<bar>sum_list (map ?f rs)\<bar> =
        \<bar>(sum_list (map ?f rs) - sum_list (map (\<lambda>v. v - m) rs)) + (sum_list rs - t) + (t - n * m)\<bar>"
    by (simp add: s2)
  also have "\<dots> \<le> \<bar>sum_list (map ?f rs) - sum_list (map (\<lambda>v. v - m) rs)\<bar> +
                    \<bar>sum_list rs - t\<bar> + \<bar>t - n * m\<bar>"
    by linarith
  also have "\<dots> \<le> n * (5 * a / 2 ^ 53) + n * (n + 1) * a / 2 ^ 53 + n * (3 * a / 2 ^ 53)"
  proof -
    have "\<bar>sum_list rs - t\<bar> = \<bar>t - sum_list rs\<bar>" by (rule abs_minus_commute)
    with te have "\<bar>sum_list rs - t\<bar> \<le> n * (n + 1) * a / 2 ^ 53" by (simp only:)
    with s1 s3 show ?thesis by (intro add_mono)
  qed
  also have "\<dots> = (n * n + 9 * n) * a / 2 ^ 53"
    by (simp add: field_simps)
  finally have bnd: "\<bar>sum_list (map ?f rs)\<bar> \<le> (n * n + 9 * n) * a / 2 ^ 53" .
  have eq: "map real_of (map (\<lambda>v. vsub v (pd_mean (map Fin rs))) (map Fin rs)) = map ?f rs"
    by (simp add: mean m)
  show ?thesis
    unfolding eq using fin bnd [unfolded n_def] by (intro conjI)
qed

text \<open>
  C4 (as amended). For two or more runs, the table of offsets has one row per run; the
  row of the last run, the reference, is the appended row of zeros before the mean is
  subtracted. After the float64 mean of every column is subtracted, the offsets of a
  dimension sum to zero when the mean and the differences from it are computed without
  rounding; and they sum to zero up to rounding in general: when the regression offsets
  of the dimension are finite and at most \<open>A\<close> in magnitude, with \<open>A\<close> between
  \<open>2^-1000\<close> and \<open>2^1000\<close>, and there are \<open>n \<le> 2^20\<close> runs, the final offsets are
  finite and the magnitude of their sum is at most \<open>(n^2 + 9 n) A / 2^53\<close>.
\<close>

theorem alignment_reference_zero_sum:
  assumes "frame_of_rows cols x = Inr alignment"
    and "2 \<le> length filenames" and "length x = length filenames - 1"
  shows "row_values (concat_zero_row alignment) (length filenames - 1) = map (\<lambda>c. Fin 0) cols \<and>
         length (index (subtract_mean (concat_zero_row alignment))) = length filenames \<and>
         map fst (columns (subtract_mean (concat_zero_row alignment))) = cols \<and>
         (\<forall>j<length cols.
            exact_centering (snd (columns (concat_zero_row alignment) ! j)) \<longrightarrow>
            sum_list (map real_of (snd (columns (subtract_mean (concat_zero_row alignment)) ! j)))
              = 0) \<and>
         (\<forall>j<length cols. \<forall>A.
            list_all (\<lambda>row. bounded_by A (row ! j)) x \<and> 2 powi (- 1000) \<le> A \<and> A \<le> 2 ^ 1000 \<and>
            length filenames \<le> 2 ^ 20 \<longrightarrow>
            list_all finite_val (snd (columns (subtract_mean (concat_zero_row alignment)) ! j)) \<and>
            \<bar>sum_list (map real_of
               (snd (columns (subtract_mean (concat_zero_row alignment)) ! j)))\<bar> \<le>
              (real (length filenames) * real (length filenames) + 9 * real (length filenames))
                * A / 2 ^ 53)"
proof -
  note cs = frame_of_rows_columns [OF assms(1)]
  have row: "row_values (concat_zero_row alignment) (length filenames - 1) = map (\<lambda>c. Fin 0) cols"
    unfolding row_values_def concat_zero_row_def cs
    using assms(3) by (simp add: nth_append o_def split_def map_replicate_const)
  have len: "length (index (subtract_mean (concat_zero_row alignment))) = length filenames"
    using assms(2,3) by (simp add: subtract_mean_def concat_zero_row_def cs)
  have names: "map fst (columns (subtract_mean (concat_zero_row alignment))) = cols"
  proof -
    have "map fst (columns (subtract_mean (concat_zero_row alignment))) =
          map snd (enumerate 0 cols)"
      by (simp add: subtract_mean_def concat_zero_row_def cs o_def split_def)
    then show ?thesis by (simp only: map_snd_enumerate)
  qed
  have final: "snd (columns (subtract_mean (concat_zero_row alignment)) ! j) =
          map (\<lambda>v. vsub v (pd_mean (snd (columns (concat_zero_row alignment) ! j))))
              (snd (columns (concat_zero_row alignment) ! j))"
    if "j < length cols" for j
  proof -
    have "j < length (columns (concat_zero_row alignment))"
      using that by (simp add: concat_zero_row_def cs)
    then show ?thesis by (simp add: subtract_mean_def split_def)
  qed
  have col: "snd (columns (concat_zero_row alignment) ! j) = map (\<lambda>row. row ! j) x @ [Fin 0]"
    if "j < length cols" for j
    using that by (simp add: concat_zero_row_def cs nth_enumerate_eq)
  have sums: "sum_list (map real_of
                (snd (columns (subtract_mean (concat_zero_row alignment)) ! j))) = 0"
    if j: "j < length cols"
      and e: "exact_centering (snd (columns (concat_zero_row alignment) ! j))" for j
    unfolding final [OF j] using e by (rule exact_centering_sum)
  have bound: "list_all finite_val (snd (columns (subtract_mean (concat_zero_row alignment)) ! j)) \<and>
            \<bar>sum_list (map real_of
               (snd (columns (subtract_mean (concat_zero_row alignment)) ! j)))\<bar> \<le>
              (real (length filenames) * real (length filenames) + 9 * real (length filenames))
                * A / 2 ^ 53"
    if j: "j < length cols" and b: "list_all (\<lambda>row. bounded_by A (row ! j)) x"
      and a1: "2 powi (- 1000) \<le> A" and a2: "A \<le> 2 ^ 1000"
      and n: "length filenames \<le> 2 ^ 20" for j A
  proof -
    have "0 < (2::real) powi (- 1000)" by simp
    with a1 have "0 \<le> A" by linarith
    then have "list_all (bounded_by A) (map (\<lambda>row. row ! j) x @ [Fin 0])"
      using b by (simp add: list_all_iff bounded_by_def)
    from bounded_list [OF this] obtain rs where
      rs: "map (\<lambda>row. row ! j) x @ [Fin 0] = map Fin rs" and rb: "\<forall>v\<in>set rs. \<bar>v\<bar> \<le> A"
      by blast
    have "length (map (\<lambda>row. row ! j) x @ [Fin 0]) = length filenames"
      using assms(2,3) by simp
    then have l: "length rs = length filenames" unfolding rs by simp
    then have ne: "rs \<noteq> []" using assms(2) by auto
    from l n have l': "length rs \<le> 2 ^ 20" by simp
    from centred_sum_bound [OF a1 a2 ne l' rb] show ?thesis
      unfolding final [OF j] col [OF j] rs l .
  qed
  from row len names sums bound show ?thesis by blast
qed

theorem alignment_reference_zero_sum_witness:
  "frame_of_rows [''mass_offset''] [[Fin 1], [Fin 2]] =
     Inr \<lparr>index = [0, 1], columns = [(''mass_offset'', [Fin 1, Fin 2])]\<rparr> \<and>
   (2::nat) \<le> length [''A'', ''B'', ''C''] \<and>
   length [[Fin 1], [Fin 2]] = length [''A'', ''B'', ''C''] - 1 \<and>
   exact_centering [Fin 1, Fin 2, Fin 0] \<and>
   list_all (\<lambda>row. bounded_by 2 (row ! 0)) [[Fin 1], [Fin 2]] \<and>
   2 powi (- 1000) \<le> (2::real) \<and> (2::real) \<le> 2 ^ 1000 \<and>
   length [''A'', ''B'', ''C''] \<le> 2 ^ 20 \<and>
   columns (subtract_mean (concat_zero_row
     \<lparr>index = [0, 1], columns = [(''mass_offset'', [Fin 1, Fin 2])]\<rparr>)) =
     [(''mass_offset'', [Fin 0, Fin 1, Fin (- 1)])] \<and>
   sum_list (map real_of (snd (columns (subtract_mean (concat_zero_row
     \<lparr>index = [0, 1], columns = [(''mass_offset'', [Fin 1, Fin 2])]\<rparr>)) ! 0))) = 0 \<and>
   \<bar>sum_list (map real_of (snd (columns (subtract_mean (concat_zero_row
     \<lparr>index = [0, 1], columns = [(''mass_offset'', [Fin 1, Fin 2])]\<rparr>)) ! 0)))\<bar> \<le>
     (3 * 3 + 9 * 3) * 2 / 2 ^ 53"
proof -
  let ?al = "\<lparr>index = [0, 1], columns = [(''mass_offset'', [Fin 1, Fin 2])]\<rparr> :: (nat, val) dataframe"
  have h1: "frame_of_rows [''mass_offset''] [[Fin 1], [Fin 2]] = Inr ?al"
    by (simp add: frame_of_rows_def enumerate_eq_zip upt_rec)
  have h2: "(2::nat) \<le> length [''A'', ''B'', ''C'']" by simp
  have h3: "length [[Fin 1], [Fin 2]] = length [''A'', ''B'', ''C''] - 1" by simp
  have m: "pd_mean [Fin 1, Fin 2, Fin 0] = Fin 1"
    by (simp add: pd_mean_def vsum_def round64_simps)
  have e: "exact_centering [Fin 1, Fin 2, Fin 0]"
    by (simp add: exact_centering_def finite_val_def m real_of_def vsub_def round64_simps)
  have b: "list_all (\<lambda>row. bounded_by 2 (row ! 0)) [[Fin 1], [Fin 2]]"
    by (simp add: bounded_by_def)
  have a1: "2 powi (- 1000) \<le> (2::real)"
  proof -
    have "(2::real) powi (- 1000) \<le> 2 powi 1"
      by (intro power_int_increasing) simp_all
    then show ?thesis by simp
  qed
  have a2: "(2::real) \<le> 2 ^ 1000" by simp
  have n: "length [''A'', ''B'', ''C''] \<le> 2 ^ 20" by simp
  have c: "columns (subtract_mean (concat_zero_row ?al)) =
     [(''mass_offset'', [Fin 0, Fin 1, Fin (- 1)])]"
    by (simp add: subtract_mean_def concat_zero_row_def m vsub_def round64_simps)
  have e': "exact_centering (snd (columns (concat_zero_row ?al) ! 0))"
    using e by (simp add: concat_zero_row_def)
  note t = alignment_reference_zero_sum [OF h1 h2 h3]
  from t e' have s: "sum_list (map real_of (snd (columns (subtract_mean (concat_zero_row ?al)) ! 0)))
      = 0"
    by simp
  note t5 = t [THEN conjunct2, THEN conjunct2, THEN conjunct2, THEN conjunct2, rule_format,
      of 0 2]
  have "(0::nat) < length [''mass_offset'']" by simp
  from t5 [OF this] b a1 a2 n have bd: "\<bar>sum_list (map real_of
      (snd (columns (subtract_mean (concat_zero_row ?al)) ! 0)))\<bar> \<le> (3 * 3 + 9 * 3) * 2 / 2 ^ 53"
    by simp
  show ?thesis
    using h1 h2 h3 e b a1 a2 n c s bd by (intro conjI)
qed

lemma round64_third: "round64 (- (1 / 3)) = Fin (- (6004799503160661 / 2 ^ 54))"
proof -
  have "round64 (- (1 / 3)) = Fin (of_int (- 6004799503160661) * 2 powi (- 2 - 52))"
    by (rule round64_eval) (simp_all add: rhe_def power_int_minus)
  then show ?thesis by (simp add: power_int_minus field_simps)
qed

lemma centred_1: "round64 (1 + 6004799503160661 / 2 ^ 54) = Fin (6004799503160661 / 2 ^ 52)"
proof -
  have "round64 (1 + 6004799503160661 / 2 ^ 54) = Fin (of_int 6004799503160661 * 2 powi (0 - 52))"
    by (rule round64_eval) (simp_all add: rhe_def power_int_minus)
  then show ?thesis by (simp add: power_int_minus field_simps)
qed

lemma centred_2: "round64 (- 2 + 6004799503160661 / 2 ^ 54) = Fin (- (7505999378950827 / 2 ^ 52))"
proof -
  have "round64 (- 2 + 6004799503160661 / 2 ^ 54) =
        Fin (of_int (- 7505999378950827) * 2 powi (0 - 52))"
    by (rule round64_eval) (simp_all add: rhe_def power_int_minus)
  then show ?thesis by (simp add: power_int_minus field_simps)
qed

lemma centred_3: "round64 (6004799503160661 / 2 ^ 54) = Fin (6004799503160661 / 2 ^ 54)"
  by (rule round64_exact [of _ 6004799503160661 "- 54"]) (simp_all add: power_int_minus)

lemma mean_example: "pd_mean [Fin 1, Fin (- 2), Fin 0] = Fin (- (6004799503160661 / 2 ^ 54))"
  by (simp add: pd_mean_def vsum_def round64_simps round64_third)

text \<open>
  The claim as stated fails: in float64 the sum is not exactly zero in general. The
  regression offsets 1 and -2 of two runs and the 0 of the reference have the float64
  mean \<open>-6004799503160661 / 2^54\<close>, and the three final offsets sum to \<open>-3 / 2^54\<close>.
\<close>

theorem alignment_reference_zero_sum_counterexample:
  "columns (subtract_mean (concat_zero_row
     \<lparr>index = [0, 1], columns = [(''mass_offset'', [Fin 1, Fin (- 2)])]\<rparr>)) =
     [(''mass_offset'', [Fin (6004799503160661 / 2 ^ 52), Fin (- (7505999378950827 / 2 ^ 52)),
                         Fin (6004799503160661 / 2 ^ 54)])] \<and>
   (6004799503160661 / 2 ^ 52 + - (7505999378950827 / 2 ^ 52) + 6004799503160661 / 2 ^ 54 :: real)
     = - (3 / 2 ^ 54)"
proof (intro conjI)
  show "columns (subtract_mean (concat_zero_row
     \<lparr>index = [0, 1], columns = [(''mass_offset'', [Fin 1, Fin (- 2)])]\<rparr>)) =
     [(''mass_offset'', [Fin (6004799503160661 / 2 ^ 52), Fin (- (7505999378950827 / 2 ^ 52)),
                         Fin (6004799503160661 / 2 ^ 54)])]"
    using centred_1 centred_2 centred_3
    by (simp add: subtract_mean_def concat_zero_row_def mean_example vsub_def)
qed simp

subsection \<open>Match probability\<close>

text \<open>
  C5. When the diagonal covariance is singular, that is when a standard deviation of the
  candidate's row is zero, \<open>get_probability\<close> raises nothing and returns nan, and nan
  does not pass the acceptance test \<open>matching_p < match_p_min\<close>, whatever the threshold:
  the candidate is rejected.
\<close>

theorem get_probability_singular:
  assumes "rectangular sigma" and "rectangular ref" and "rectangular df"
    and "i < length (index sigma)" and "i < length (index ref)" and "i < length (index df)"
    and "Fin 0 \<in> set (row_values sigma i)"
  shows "get_probability chi2_cdf df ref sigma i = Inr NaN \<and> \<not> accepted match_p_min NaN"
proof -
  have "inv_diag (row_values sigma i) = Inl LinAlgError"
    using assms(7) by (auto simp: inv_diag_def list_ex_iff)
  then have "\<exists>e. m_dist (row_values df i) (row_values ref i) (row_values sigma i) = Inl e"
    by (simp add: m_dist_def)
  then show ?thesis
    using assms(4-6) by (auto simp: get_probability_def iloc_def accepted_def)
qed

theorem get_probability_singular_witness:
  "rectangular example_std \<and> rectangular example_ref \<and> rectangular example_df \<and>
   (1::nat) < length (index example_std) \<and> (1::nat) < length (index example_ref) \<and>
   (1::nat) < length (index example_df) \<and> Fin 0 \<in> set (row_values example_std 1) \<and>
   get_probability (\<lambda>m k. Fin 0) example_df example_ref example_std 1 = Inr NaN \<and>
   \<not> accepted (Fin (1 / 2)) NaN"
proof -
  have r1: "rectangular example_std" by (simp add: rectangular_def example_std_def)
  have r2: "rectangular example_ref" by (simp add: rectangular_def example_ref_def)
  have r3: "rectangular example_df" by (simp add: rectangular_def example_df_def)
  have h1: "(1::nat) < length (index example_std)" by (simp add: example_std_def)
  have h2: "(1::nat) < length (index example_ref)" by (simp add: example_ref_def)
  have h3: "(1::nat) < length (index example_df)" by (simp add: example_df_def)
  have h4: "Fin 0 \<in> set (row_values example_std 1)"
    by (simp add: example_std_def row_values_def)
  show ?thesis
    using r1 r2 r3 h1 h2 h3 h4 get_probability_singular [OF r1 r2 r3 h1 h2 h3 h4] by blast
qed

subsection \<open>Reference builder\<close>

lemma grouped_keys: "set (map ref_precursor (grouped xx)) = precursor ` set xx"
  by (simp add: grouped_def o_def Let_def)

lemma runs_observed_pos:
  "1 \<le> runs_observed x files k \<longleftrightarrow> k \<in> precursor ` set (pooled x files)"
proof -
  have "1 \<le> runs_observed x files k \<longleftrightarrow>
        remdups (map shortname (filter (\<lambda>r. precursor r = k) (pooled x files))) \<noteq> []"
    unfolding runs_observed_def by (simp add: Suc_le_eq)
  also have "\<dots> \<longleftrightarrow> filter (\<lambda>r. precursor r = k) (pooled x files) \<noteq> []"
    by simp
  also have "\<dots> \<longleftrightarrow> k \<in> precursor ` set (pooled x files)"
    by (auto simp: filter_empty_conv)
  finally show ?thesis .
qed

text \<open>
  C3 (as amended). In an experiment of more than two files, the reference of a matching
  group is built exactly when the group has at least 3 source runs, and its keys are then
  the precursors identified in at least one of the source runs: the number of runs in
  which a precursor was identified is not looked at.
\<close>

theorem reference_built_from_three_runs:
  assumes "files_from st grp = Inr files" and "2 < length (file_paths st)"
  shows "(length files < 3 \<longrightarrow> reference_index st x grp = Inr None) \<and>
         (3 \<le> length files \<longrightarrow>
            (\<exists>keys. reference_index st x grp = Inr (Some keys) \<and>
                    (\<forall>k. k \<in> set keys \<longleftrightarrow> 1 \<le> runs_observed x files k)))"
proof (intro conjI impI)
  assume "length files < 3"
  then show "reference_index st x grp = Inr None"
    using assms by (simp add: reference_index_def reference_def)
next
  assume "3 \<le> length files"
  then have "reference_index st x grp =
             Inr (Some (map ref_precursor (grouped (pooled x files))))"
    using assms by (simp add: reference_index_def reference_def)
  moreover have "\<forall>k. k \<in> set (map ref_precursor (grouped (pooled x files))) \<longleftrightarrow>
                     1 \<le> runs_observed x files k"
    unfolding grouped_keys runs_observed_pos by simp
  ultimately show "\<exists>keys. reference_index st x grp = Inr (Some keys) \<and>
                    (\<forall>k. k \<in> set keys \<longleftrightarrow> 1 \<le> runs_observed x files k)"
    by blast
qed

lemma three_runs_files: "files_from three_runs 0 = Inr [''a'', ''b'', ''c'']"
  by (simp add: files_from_def three_runs_def groups_of_def boolean_index_def select_def)

lemma three_runs_paths: "2 < length (file_paths three_runs)"
  by (simp add: three_runs_def)

lemma three_runs_index: "reference_index three_runs three_runs_x 0 = Inr (Some [1, 2])"
proof -
  have r: "reference three_runs three_runs_x 0 =
           Inr (Some (grouped (pooled three_runs_x [''a'', ''b'', ''c''])))"
    by (simp add: reference_def three_runs_files three_runs_paths)
  have k: "map ref_precursor (grouped (pooled three_runs_x [''a'', ''b'', ''c''])) = [1, 2]"
    by (simp add: grouped_def pooled_def three_runs_x_def ident_def)
  show ?thesis
    by (simp add: reference_index_def r k)
qed

text \<open>
  The claim as stated fails: with three runs in the group, a precursor identified in one
  run only is a key of the reference, and a candidate for the transfer to another run.
\<close>

theorem reference_single_run_counterexample:
  "reference_index three_runs three_runs_x 0 = Inr (Some [1, 2]) \<and>
   runs_observed three_runs_x [''a'', ''b'', ''c''] 2 = 1 \<and>
   matching_set [1, 2 :: nat] [1] = [2]"
proof (intro conjI)
  show "reference_index three_runs three_runs_x 0 = Inr (Some [1, 2])"
    by (rule three_runs_index)
  show "runs_observed three_runs_x [''a'', ''b'', ''c''] 2 = 1"
    by (simp add: pooled_def three_runs_x_def ident_def runs_observed_def)
  show "matching_set [1, 2 :: nat] [1] = [2]"
    by (simp add: matching_set_def)
qed

theorem reference_built_from_three_runs_witness:
  "files_from three_runs 0 = Inr [''a'', ''b'', ''c''] \<and> 2 < length (file_paths three_runs) \<and>
   (3::nat) \<le> length [''a'', ''b'', ''c''] \<and>
   reference_index three_runs three_runs_x 0 = Inr (Some [1, 2]) \<and>
   1 \<le> runs_observed three_runs_x [''a'', ''b'', ''c''] 1 \<and>
   1 \<le> runs_observed three_runs_x [''a'', ''b'', ''c''] 2 \<and>
   \<not> 1 \<le> runs_observed three_runs_x [''a'', ''b'', ''c''] 3"
proof -
  have h1: "files_from three_runs 0 = Inr [''a'', ''b'', ''c'']" by (rule three_runs_files)
  have h2: "2 < length (file_paths three_runs)" by (rule three_runs_paths)
  have ix: "reference_index three_runs three_runs_x 0 = Inr (Some [1, 2])"
    by (rule three_runs_index)
  from reference_built_from_three_runs [OF h1 h2, of three_runs_x] ix
  have all: "\<forall>k. k \<in> set [1, 2] \<longleftrightarrow> 1 \<le> runs_observed three_runs_x [''a'', ''b'', ''c''] k"
    by simp
  have k1: "1 \<le> runs_observed three_runs_x [''a'', ''b'', ''c''] 1"
    using all [THEN spec, of 1] by simp
  have k2: "1 \<le> runs_observed three_runs_x [''a'', ''b'', ''c''] 2"
    using all [THEN spec, of 2] by simp
  have k3: "\<not> 1 \<le> runs_observed three_runs_x [''a'', ''b'', ''c''] 3"
    using all [THEN spec, of 3] by simp
  show ?thesis
    using h1 h2 ix k1 k2 k3 by simp
qed

lemma convert_decoy_iff: "convert_decoy m \<longleftrightarrow> m = Fin 1"
  by (cases m) (simp_all add: convert_decoy_def)

lemma flags_sum:
  "a + length bs < 2 ^ 53 \<Longrightarrow>
   foldl vadd (Fin (real a)) (map flag01 bs) = Fin (real (a + length (filter id bs)))"
proof (induction bs arbitrary: a)
  case Nil
  show ?case by simp
next
  case (Cons b bs)
  from Cons.prems have a1: "Suc a < 2 ^ 53" and a0: "a < 2 ^ 53" by simp_all
  have step: "vadd (Fin (real a)) (flag01 b) = Fin (real (if b then Suc a else a))"
  proof (cases b)
    case True
    have "round64 (real a + 1) = Fin (real a + 1)"
      using round64_nat [OF a1] by (simp add: add.commute)
    with True show ?thesis by (simp add: flag01_def)
  next
    case False
    with round64_nat [OF a0] show ?thesis by (simp add: flag01_def)
  qed
  have "(if b then Suc a else a) + length bs < 2 ^ 53" using Cons.prems by simp
  from Cons.IH [OF this] show ?case
    by (simp add: step)
qed

lemma mean_flag_round:
  assumes "bs \<noteq> []" and "length bs < 2 ^ 53"
  shows "mean_flag bs = round64 (real (length (filter id bs)) / real (length bs))"
proof -
  have nn: "filter (\<lambda>v. v \<noteq> NaN) (map flag01 bs) = map flag01 bs"
    by (simp add: filter_id_conv flag01_def)
  have s: "vsum (map flag01 bs) = Fin (real (length (filter id bs)))"
    using flags_sum [of 0 bs] assms(2) by (simp add: vsum_def)
  show ?thesis
    using assms(1) by (simp add: mean_flag_def pd_mean_def nn s)
qed

lemma filter_id_all: "length (filter id bs) = length bs \<longleftrightarrow> (\<forall>b\<in>set bs. b)"
  using filter_id_conv [of id bs] length_filter_less [of _ bs id]
  by (metis filter_True id_apply less_irrefl)

lemma convert_decoy_mean_flag:
  assumes "bs \<noteq> []" and "length bs < 2 ^ 53"
  shows "convert_decoy (mean_flag bs) \<longleftrightarrow> (\<forall>b\<in>set bs. b)"
proof (cases "length (filter id bs) = length bs")
  case True
  then have "mean_flag bs = Fin 1"
    using assms by (simp add: mean_flag_round round64_1)
  with True show ?thesis by (simp add: convert_decoy_iff filter_id_all)
next
  case False
  let ?c = "length (filter id bs)" and ?n = "length bs"
  have npos: "0 < ?n" using assms(1) by simp
  have "Suc ?c \<le> ?n"
    using length_filter_le [of id bs] False by arith
  then have "real ?c + 1 \<le> real ?n" by linarith
  then have "real ?c / real ?n \<le> 1 - 1 / real ?n"
    using npos by (simp add: field_simps)
  moreover have "0 \<le> real ?c / real ?n" by simp
  ultimately have "round64 (real ?c / real ?n) \<noteq> Fin 1"
    using npos assms(2) by (intro round64_below_one)
  with False show ?thesis
    using assms by (simp add: mean_flag_round convert_decoy_iff filter_id_all)
qed

lemma grouped_row:
  assumes "row \<in> set (grouped xx)"
  shows "ref_precursor row \<in> precursor ` set xx"
    and "ref_decoy row =
           convert_decoy (mean_flag (map decoy (filter (\<lambda>r. precursor r = ref_precursor row) xx)))"
    and "ref_target row =
           convert_decoy (mean_flag (map target (filter (\<lambda>r. precursor r = ref_precursor row) xx)))"
  using assms by (auto simp: grouped_def Let_def)

text \<open>
  C9. \<open>convert_decoy\<close> is true for the value 1 and for no other. In the reference, the
  decoy flag of a precursor is true exactly when the float64 mean of the 0/1 decoy flags
  of its pooled rows is 1, which is exactly when every one of these rows is a decoy: a
  group that mixes the two values is mapped to false. The same holds for the target
  flag. (The number of rows is below \<open>2^53\<close>, so that counting them in float64 is exact.)
\<close>

theorem reference_flags_threshold_at_one:
  assumes "files_from st grp = Inr files" and "reference st x grp = Inr (Some refs)"
    and "row \<in> set refs" and "length x < 2 ^ 53"
  shows "(convert_decoy m \<longleftrightarrow> m = Fin 1) \<and>
         (ref_decoy row \<longleftrightarrow>
            mean_flag (map decoy (precursor_group x files (ref_precursor row))) = Fin 1) \<and>
         (ref_decoy row \<longleftrightarrow>
            (\<forall>r\<in>set (precursor_group x files (ref_precursor row)). decoy r)) \<and>
         (ref_target row \<longleftrightarrow>
            mean_flag (map target (precursor_group x files (ref_precursor row))) = Fin 1) \<and>
         (ref_target row \<longleftrightarrow>
            (\<forall>r\<in>set (precursor_group x files (ref_precursor row)). target r))"
proof -
  let ?g = "precursor_group x files (ref_precursor row)"
  from assms(1,2) have refs: "refs = grouped (pooled x files)"
    by (auto simp: reference_def split: if_splits)
  note gr = grouped_row [OF assms(3) [unfolded refs]]
  from gr(1) have ne: "?g \<noteq> []"
    by (auto simp: precursor_group_def filter_empty_conv)
  have "length ?g \<le> length (pooled x files)" by (simp add: precursor_group_def)
  also have "\<dots> \<le> length x" by (simp add: pooled_def)
  finally have len: "length ?g < 2 ^ 53" using assms(4) by simp
  have d: "ref_decoy row = convert_decoy (mean_flag (map decoy ?g))"
    using gr(2) by (simp add: precursor_group_def)
  have t: "ref_target row = convert_decoy (mean_flag (map target ?g))"
    using gr(3) by (simp add: precursor_group_def)
  have d2: "convert_decoy (mean_flag (map decoy ?g)) \<longleftrightarrow> (\<forall>r\<in>set ?g. decoy r)"
    using convert_decoy_mean_flag [of "map decoy ?g"] ne len by simp
  have t2: "convert_decoy (mean_flag (map target ?g)) \<longleftrightarrow> (\<forall>r\<in>set ?g. target r)"
    using convert_decoy_mean_flag [of "map target ?g"] ne len by simp
  show ?thesis
    using d t d2 t2 by (simp add: convert_decoy_iff)
qed

theorem reference_flags_threshold_at_one_witness:
  "files_from three_runs 0 = Inr [''a'', ''b'', ''c''] \<and>
   reference three_runs mixed_x 0 = Inr (Some (grouped (pooled mixed_x [''a'', ''b'', ''c'']))) \<and>
   grouped (pooled mixed_x [''a'', ''b'', ''c'']) ! 0 \<in>
     set (grouped (pooled mixed_x [''a'', ''b'', ''c''])) \<and>
   length mixed_x < 2 ^ 53 \<and>
   ref_precursor (grouped (pooled mixed_x [''a'', ''b'', ''c'']) ! 0) = 1 \<and>
   map decoy (precursor_group mixed_x [''a'', ''b'', ''c''] 1) = [False, False, True] \<and>
   map target (precursor_group mixed_x [''a'', ''b'', ''c''] 1) = [True, True, False] \<and>
   \<not> ref_decoy (grouped (pooled mixed_x [''a'', ''b'', ''c'']) ! 0) \<and>
   \<not> ref_target (grouped (pooled mixed_x [''a'', ''b'', ''c'']) ! 0) \<and>
   mean_flag [False, False, True] \<noteq> Fin 1 \<and>
   mean_flag [True, True, False] \<noteq> Fin 1"
proof -
  let ?refs = "grouped (pooled mixed_x [''a'', ''b'', ''c''])"
  have h1: "files_from three_runs 0 = Inr [''a'', ''b'', ''c'']" by (rule three_runs_files)
  have h2: "reference three_runs mixed_x 0 = Inr (Some ?refs)"
    by (simp add: reference_def three_runs_files three_runs_paths)
  have len: "length ?refs = 2"
    by (simp add: grouped_def pooled_def mixed_x_def ident_def)
  then have h3: "?refs ! 0 \<in> set ?refs" by simp
  have h4: "length mixed_x < 2 ^ 53" by (simp add: mixed_x_def)
  have k: "ref_precursor (?refs ! 0) = 1"
    by (simp add: grouped_def pooled_def mixed_x_def ident_def)
  have d: "map decoy (precursor_group mixed_x [''a'', ''b'', ''c''] 1) = [False, False, True]"
    by (simp add: precursor_group_def pooled_def mixed_x_def ident_def)
  have t: "map target (precursor_group mixed_x [''a'', ''b'', ''c''] 1) = [True, True, False]"
    by (simp add: precursor_group_def pooled_def mixed_x_def ident_def)
  note th = reference_flags_threshold_at_one [OF h1 h2 h3 h4, of NaN, unfolded k d t]
  from th have d1: "ref_decoy (?refs ! 0) \<longleftrightarrow> mean_flag [False, False, True] = Fin 1"
    and t1: "ref_target (?refs ! 0) \<longleftrightarrow> mean_flag [True, True, False] = Fin 1"
    and d2: "ref_decoy (?refs ! 0) \<longleftrightarrow>
               (\<forall>r\<in>set (precursor_group mixed_x [''a'', ''b'', ''c''] 1). decoy r)"
    and t2: "ref_target (?refs ! 0) \<longleftrightarrow>
               (\<forall>r\<in>set (precursor_group mixed_x [''a'', ''b'', ''c''] 1). target r)"
    by blast+
  have "\<not> (\<forall>r\<in>set (precursor_group mixed_x [''a'', ''b'', ''c''] 1). decoy r)"
    by (simp add: precursor_group_def pooled_def mixed_x_def ident_def)
  with d2 have nd: "\<not> ref_decoy (?refs ! 0)" by simp
  have "\<not> (\<forall>r\<in>set (precursor_group mixed_x [''a'', ''b'', ''c''] 1). target r)"
    by (simp add: precursor_group_def pooled_def mixed_x_def ident_def)
  with t2 have nt: "\<not> ref_target (?refs ! 0)" by simp
  from nd d1 have md: "mean_flag [False, False, True] \<noteq> Fin 1" by simp
  from nt t1 have mt: "mean_flag [True, True, False] \<noteq> Fin 1" by simp
  show ?thesis
    using h1 h2 h3 h4 k d t nd nt md mt by (intro conjI)
qed

subsection \<open>Merging the matches\<close>





















end
